theory Spec2Isabelle
  imports Main "HOL-Library.Multiset"
begin

section \<open>Common vocabulary\<close>

text \<open>
  A Python call either returns a value or leaves through an exception. Every
  exception that matters to the collector is a subclass of \<^verbatim>\<open>Exception\<close>, and the
  handlers of the source only distinguish the Telegram errors, which have a type of
  their own below; so one constructor stands for a raised exception.
\<close>

datatype 'a outcome = Returned 'a | Raised

text \<open>The loguru levels used by the source (\<^verbatim>\<open>logger.exception\<close> logs at ERROR).\<close>

datatype level = DEBUG | INFO | WARNING | ERROR | CRITICAL

text \<open>The SQL statements of \<^verbatim>\<open>database.py\<close>.\<close>

datatype stmt =
    SelectDatabase
  | CreateDatabase
  | CreateTable
  | CreateUniqueIndex
  | CreateIndex
  | InsertPost

text \<open>
  What the program does to the outside world, in the order it does it: log lines,
  driver calls on a database connection, calls of the Telegram client, sleeping.
  \<open>Summary\<close> is the log line of \<^verbatim>\<open>_log_collection_summary\<close> with the four numbers it
  prints (channels, processed, saved, errors).
\<close>

datatype event =
    Log level
  | Connect
  | GetConn
  | Execute stmt
  | Commit
  | Rollback
  | PutConn
  | GetEntity string
  | GetMessages int int
  | Sleep nat
  | Summary int int int int

section \<open>config.py: the settings value\<close>

text \<open>\<^verbatim>\<open>PostgresDsn\<close>, by the components \<^verbatim>\<open>PostgresDsn.build\<close> takes.\<close>

record dsn =
  scheme :: string
  username :: string
  password :: string
  host :: string
  port :: int
  path :: string

text \<open>
  A validated \<^verbatim>\<open>Settings\<close> object. \<open>TELEGRAM_CHANNELS\<close> holds the list the field
  validator returns.
\<close>

record settings =
  API_ID :: string
  API_HASH :: string
  SESSION_NAME :: string
  DB_HOST :: string
  DB_PORT :: int
  DB_NAME :: string
  DB_USER :: string
  DB_PASSWORD :: string
  DATABASE_URL :: "dsn option"
  TELEGRAM_CHANNELS :: "string list"
  MESSAGES_LIMIT :: int
  COLLECTION_INTERVAL :: int
  LOG_LEVEL :: string

section \<open>database.py\<close>

text \<open>
  A row of \<^verbatim>\<open>telegram_posts\<close>. The column \<^verbatim>\<open>collected_at\<close> is filled by the server
  clock and is left out. Timestamps are seconds since the epoch.
\<close>

record post =
  post_id :: nat
  channel_id :: string
  message_id :: int
  published_at :: int
  post_text :: "string option"
  views :: "int option"

text \<open>
  The keyword arguments handed to the driver when a connection is opened:
  \<^verbatim>\<open>self.conn_params\<close> of \<^verbatim>\<open>Database.__init__\<close> (the cursor factory is left out) and
  the \<^verbatim>\<open>database\<close> entry added by \<^verbatim>\<open>_init_pool\<close> and \<^verbatim>\<open>create_database\<close>.
\<close>

record conn_params =
  cp_host :: string
  cp_port :: int
  cp_user :: string
  cp_password :: string

record connect_args =
  ca_host :: string
  ca_port :: int
  ca_user :: string
  ca_password :: string
  ca_database :: string

text \<open>
  The \<^verbatim>\<open>Database\<close> object together with the PostgreSQL server it talks to.
  \<^item> \<open>params\<close> is \<^verbatim>\<open>self.conn_params\<close>;
  \<^item> \<open>pool\<close> is \<^verbatim>\<open>self.pool\<close>: \<open>None\<close> before \<^verbatim>\<open>_init_pool\<close>, then the arguments
    the pool opens its connections with and the number of connections handed out
    and not yet put back;
  \<^item> \<open>server\<close> is the server's committed state: the databases that exist, the
    names of the tables and indexes of the database, the rows of
    \<^verbatim>\<open>telegram_posts\<close> and the next value of the \<^verbatim>\<open>SERIAL\<close> sequence;
  \<^item> \<open>journal\<close> lists the driver calls and log lines of this object so far.
\<close>

record server =
  databases :: "string list"
  catalog :: "string list"
  posts :: "post list"
  next_id :: nat

record database =
  params :: conn_params
  pool :: "(connect_args \<times> nat) option"
  server :: server
  journal :: "event list"

text \<open>
  The environment decides whether the driver raises at a call. One value per
  invocation of a \<^verbatim>\<open>Database\<close> method: opening or getting a connection, executing
  a statement, committing, rolling back. A uniqueness conflict on the natural key
  is not among them: \<^verbatim>\<open>ON CONFLICT DO NOTHING\<close> handles it inside the statement.
\<close>

record db_faults =
  connect_fails :: bool
  execute_fails :: bool
  commit_fails :: bool
  rollback_fails :: bool

definition no_fault :: db_faults where
  "no_fault = \<lparr>connect_fails = False, execute_fails = False,
                commit_fails = False, rollback_fails = False\<rparr>"

text \<open>\<^verbatim>\<open>SimpleConnectionPool(minconn=5, maxconn=20, ...)\<close>\<close>

definition minconn :: nat where "minconn = 5"
definition maxconn :: nat where "maxconn = 20"

definition telegram_posts :: string where
  "telegram_posts = ''telegram_posts''"

definition telegram_posts_channel_message_idx :: string where
  "telegram_posts_channel_message_idx = ''telegram_posts_channel_message_idx''"

definition telegram_posts_published_at_idx :: string where
  "telegram_posts_published_at_idx = ''telegram_posts_published_at_idx''"

definition emit :: "database \<Rightarrow> event list \<Rightarrow> database" where
  "emit d es = d\<lparr>journal := journal d @ es\<rparr>"

text \<open>
  \<^verbatim>\<open>Database.__init__\<close>: four settings are read. \<open>srv\<close> is the server the object will
  talk to.
\<close>

definition Database_init :: "settings \<Rightarrow> server \<Rightarrow> database" where
  "Database_init s srv =
     \<lparr>params = \<lparr>cp_host = DB_HOST s, cp_port = DB_PORT s,
                 cp_user = DB_USER s, cp_password = DB_PASSWORD s\<rparr>,
      pool = None, server = srv, journal = []\<rparr>"

text \<open>\<^verbatim>\<open>conn_params = self.conn_params.copy(); conn_params['database'] = settings.DB_NAME\<close>\<close>

definition with_database :: "settings \<Rightarrow> conn_params \<Rightarrow> connect_args" where
  "with_database s p =
     \<lparr>ca_host = cp_host p, ca_port = cp_port p, ca_user = cp_user p,
      ca_password = cp_password p, ca_database = DB_NAME s\<rparr>"

text \<open>
  \<^verbatim>\<open>_init_pool\<close>: creates the pool when there is none. Opening its first connections
  raises when the server cannot be reached.
\<close>

definition init_pool :: "settings \<Rightarrow> database \<Rightarrow> db_faults \<Rightarrow> database outcome" where
  "init_pool s d f =
     (case pool d of
        Some p \<Rightarrow> Returned d
      | None \<Rightarrow>
          if connect_fails f then Raised
          else Returned (d\<lparr>pool := Some (with_database s (params d), 0)\<rparr>))"

text \<open>
  \<^verbatim>\<open>get_connection\<close>: \<^verbatim>\<open>getconn\<close> raises \<^verbatim>\<open>PoolError\<close> when \<open>maxconn\<close> connections are
  out, and the driver's error when a connection it has to open cannot be opened.
\<close>

definition get_connection :: "settings \<Rightarrow> database \<Rightarrow> db_faults \<Rightarrow> database outcome" where
  "get_connection s d f =
     (case init_pool s d f of
        Raised \<Rightarrow> Raised
      | Returned d1 \<Rightarrow>
          (case pool d1 of
             None \<Rightarrow> Raised
           | Some (args, used) \<Rightarrow>
               if connect_fails f \<or> maxconn \<le> used then Raised
               else Returned (emit (d1\<lparr>pool := Some (args, Suc used)\<rparr>) [GetConn])))"

text \<open>\<^verbatim>\<open>return_connection\<close>\<close>

definition return_connection :: "database \<Rightarrow> database" where
  "return_connection d =
     (case pool d of
        None \<Rightarrow> d
      | Some (args, used) \<Rightarrow> emit (d\<lparr>pool := Some (args, used - 1)\<rparr>) [PutConn])"

text \<open>Connections handed out by the pool and not put back.\<close>

definition in_use :: "database \<Rightarrow> nat" where
  "in_use d = (case pool d of None \<Rightarrow> 0 | Some (args, used) \<Rightarrow> used)"

text \<open>
  \<^verbatim>\<open>create_database\<close>: a connection of its own (not from the pool), the lookup in
  \<^verbatim>\<open>pg_database\<close>, and \<^verbatim>\<open>CREATE DATABASE\<close> when the lookup finds nothing. Any
  exception is logged and raised again. The connection is opened with
  \<^verbatim>\<open>database = settings.DB_NAME\<close>, so opening it raises when the server cannot be
  reached and also when it has no database of that name. The \<^verbatim>\<open>with\<close> block of the
  connection commits when it is left normally and rolls back when an exception
  leaves it.
\<close>

definition create_database :: "settings \<Rightarrow> database \<Rightarrow> db_faults \<Rightarrow> unit outcome \<times> database" where
  "create_database s d f =
     (if connect_fails f \<or> DB_NAME s \<notin> set (databases (server d)) then
        (Raised, emit d [Connect, Log ERROR])
      else if execute_fails f then
        (Raised, emit d [Connect, Execute SelectDatabase, Rollback, Log ERROR])
      else if DB_NAME s \<in> set (databases (server d)) then
        (if commit_fails f then
           (Raised, emit d [Connect, Execute SelectDatabase, Commit, Log ERROR])
         else (Returned (), emit d [Connect, Execute SelectDatabase, Commit]))
      else
        (if commit_fails f then
           (Raised,
            emit (d\<lparr>server := (server d)\<lparr>databases := databases (server d) @ [DB_NAME s]\<rparr>\<rparr>)
              [Connect, Execute SelectDatabase, Execute CreateDatabase, Log INFO, Commit,
               Log ERROR])
         else
           (Returned (),
            emit (d\<lparr>server := (server d)\<lparr>databases := databases (server d) @ [DB_NAME s]\<rparr>\<rparr>)
              [Connect, Execute SelectDatabase, Execute CreateDatabase, Log INFO, Commit])))"

text \<open>\<^verbatim>\<open>CREATE ... IF NOT EXISTS name\<close> on the catalog.\<close>

definition create_if_not_exists :: "string \<Rightarrow> string list \<Rightarrow> string list" where
  "create_if_not_exists name cat = (if name \<in> set cat then cat else cat @ [name])"

text \<open>
  The three statements of \<^verbatim>\<open>init_db\<close> on the catalog: the table, the unique index
  on (channel_id, message_id), the index on published_at.
\<close>

definition init_catalog :: "string list \<Rightarrow> string list" where
  "init_catalog cat =
     create_if_not_exists telegram_posts_published_at_idx
       (create_if_not_exists telegram_posts_channel_message_idx
          (create_if_not_exists telegram_posts cat))"

text \<open>
  \<^verbatim>\<open>init_db\<close>: \<^verbatim>\<open>create_database\<close>, then the three statements in one transaction on
  a pooled connection, committed. \<open>fc\<close> is what \<^verbatim>\<open>create_database\<close> meets, \<open>f\<close> what
  the rest meets; a statement that raises is taken to be the first of the three.
  An exception leaves the method (the \<^verbatim>\<open>with\<close> block of the connection rolls
  the transaction back on the way). The connection is taken from the pool and
  not put back: the \<^verbatim>\<open>with\<close> block of a connection ends the transaction only.
\<close>

definition init_db :: "settings \<Rightarrow> database \<Rightarrow> db_faults \<Rightarrow> db_faults \<Rightarrow> unit outcome \<times> database" where
  "init_db s d fc f =
     (case create_database s d fc of
        (Raised, d1) \<Rightarrow> (Raised, d1)
      | (Returned u, d1) \<Rightarrow>
          (case get_connection s d1 f of
             Raised \<Rightarrow> (Raised, d1)
           | Returned d2 \<Rightarrow>
               if execute_fails f then (Raised, emit d2 [Execute CreateTable, Rollback])
               else if commit_fails f then
                 (Raised,
                  emit d2 [Execute CreateTable, Execute CreateUniqueIndex,
                           Execute CreateIndex, Commit, Rollback])
               else
                 (Returned (),
                  emit (d2\<lparr>server := (server d2)\<lparr>catalog := init_catalog (catalog (server d2))\<rparr>\<rparr>)
                    [Execute CreateTable, Execute CreateUniqueIndex,
                     Execute CreateIndex, Commit, Log INFO, Commit])))"

text \<open>
  The \<^verbatim>\<open>INSERT ... ON CONFLICT (channel_id, message_id) DO NOTHING RETURNING id\<close>
  statement inside its transaction. It raises when the table or the unique index
  the conflict target needs is missing. Otherwise it gives what \<^verbatim>\<open>fetchone\<close> will
  return (the new id, or nothing on a conflict) and the rows the transaction will
  add at commit. The sequence moves on whether or not the row is kept.
\<close>

definition conflicts :: "post list \<Rightarrow> string \<Rightarrow> int \<Rightarrow> bool" where
  "conflicts ps cid mid = list_ex (\<lambda>p. channel_id p = cid \<and> message_id p = mid) ps"

definition insert_post ::
  "server \<Rightarrow> string \<Rightarrow> int \<Rightarrow> int \<Rightarrow> string option \<Rightarrow> int option
     \<Rightarrow> (nat option \<times> post list) outcome" where
  "insert_post d cid mid pub txt vws =
     (if telegram_posts \<notin> set (catalog d) \<or>
         telegram_posts_channel_message_idx \<notin> set (catalog d) then Raised
      else if conflicts (posts d) cid mid then Returned (None, [])
      else Returned (Some (next_id d),
             [\<lparr>post_id = next_id d, channel_id = cid, message_id = mid,
               published_at = pub, post_text = txt, views = vws\<rparr>]))"

text \<open>
  The \<^verbatim>\<open>except Exception\<close> handler and the \<^verbatim>\<open>finally\<close> clause of \<^verbatim>\<open>save_message\<close>:
  log, roll back, return False; a rollback that raises leaves the method with
  that exception. The connection goes back to the pool either way. \<open>d\<close> is the
  state at the raise, \<open>es\<close> the driver calls made in the \<^verbatim>\<open>try\<close> block.
\<close>

definition save_failed :: "database \<Rightarrow> db_faults \<Rightarrow> event list \<Rightarrow> bool outcome \<times> database" where
  "save_failed d f es =
     (if rollback_fails f
      then (Raised, return_connection (emit d (es @ [Log ERROR, Rollback])))
      else (Returned False, return_connection (emit d (es @ [Log ERROR, Rollback]))))"

text \<open>\<^verbatim>\<open>save_message\<close>\<close>

definition save_message ::
  "settings \<Rightarrow> database \<Rightarrow> db_faults \<Rightarrow> string \<Rightarrow> int \<Rightarrow> int \<Rightarrow> string option \<Rightarrow> int option
     \<Rightarrow> bool outcome \<times> database" where
  "save_message s d f cid mid pub txt vws =
     (case get_connection s d f of
        Raised \<Rightarrow> (Raised, d)
      | Returned d1 \<Rightarrow>
          if execute_fails f then save_failed d1 f [Execute InsertPost]
          else
            (case insert_post (server d1) cid mid pub txt vws of
               Raised \<Rightarrow> save_failed d1 f [Execute InsertPost]
             | Returned (result, pending) \<Rightarrow>
                 let d2 = d1\<lparr>server := (server d1)\<lparr>next_id := Suc (next_id (server d1))\<rparr>\<rparr> in
                 if commit_fails f then save_failed d2 f [Execute InsertPost, Commit]
                 else
                   (Returned True,
                    return_connection
                      (emit (d2\<lparr>server := (server d2)\<lparr>posts := posts (server d2) @ pending\<rparr>\<rparr>)
                         ([Execute InsertPost, Commit] @
                          (if result = None then [] else [Log DEBUG]))))))"

text \<open>The stored rows with a given natural key.\<close>

definition rows_with_key :: "database \<Rightarrow> string \<Rightarrow> int \<Rightarrow> post list" where
  "rows_with_key d cid mid =
     filter (\<lambda>p. channel_id p = cid \<and> message_id p = mid) (posts (server d))"

text \<open>The uniqueness the index on (channel_id, message_id) stands for.\<close>

definition unique_keys :: "database \<Rightarrow> bool" where
  "unique_keys d = distinct (map (\<lambda>p. (channel_id p, message_id p)) (posts (server d)))"

section \<open>collector.py\<close>

text \<open>
  A \<^verbatim>\<open>Message\<close> of the Telegram client, by the attributes the collector reads:
  \<^verbatim>\<open>id\<close>, \<^verbatim>\<open>date\<close>, \<^verbatim>\<open>text\<close> and \<^verbatim>\<open>getattr(message, 'views', None)\<close>.
\<close>

record message =
  msg_id :: int
  msg_date :: int
  msg_text :: "string option"
  msg_views :: "int option"

text \<open>
  The exceptions of the Telegram client that the handlers tell apart.
  \<open>FloodWaitError n\<close> carries \<^verbatim>\<open>e.seconds\<close>.
\<close>

datatype api_error =
    FloodWaitError nat
  | ChannelPrivateError
  | ChatAdminRequiredError
  | ValueError
  | OtherError

text \<open>
  What the outside world answers for one configured channel during one cycle:
  \<^item> \<open>validate_entity\<close>: \<^verbatim>\<open>client.get_entity\<close> in \<^verbatim>\<open>validate_channel\<close>
    (the entity's id, or the exception);
  \<^item> \<open>collect_entity\<close>: \<^verbatim>\<open>client.get_entity\<close> in \<^verbatim>\<open>collect_channel_messages\<close>;
  \<^item> \<open>collect_messages\<close>: \<^verbatim>\<open>client.get_messages\<close>;
  \<^item> \<open>save_faults\<close>: what the database driver does at the save of the first,
    second, ... fetched message (no fault once the list is used up).
\<close>

record channel_env =
  validate_entity :: "api_error + int"
  collect_entity :: "api_error + int"
  collect_messages :: "api_error + message list"
  save_faults :: "db_faults list"

text \<open>\<^verbatim>\<open>CollectionStats\<close>\<close>

record CollectionStats =
  processed :: int
  saved :: int
  errors :: int

text \<open>
  The \<^verbatim>\<open>TelegramCollector\<close> object: \<^verbatim>\<open>self.db\<close>, \<^verbatim>\<open>self.collection_stats\<close> (a dict in
  insertion order), and the log lines, client calls and sleeps so far.
\<close>

record collector =
  db :: database
  collection_stats :: "(string \<times> CollectionStats) list"
  trace :: "event list"

definition tell :: "collector \<Rightarrow> event list \<Rightarrow> collector" where
  "tell c es = c\<lparr>trace := trace c @ es\<rparr>"

text \<open>Python's \<^verbatim>\<open>d[k] = v\<close> on a dict kept in insertion order.\<close>

fun dict_set :: "'k \<Rightarrow> 'v \<Rightarrow> ('k \<times> 'v) list \<Rightarrow> ('k \<times> 'v) list" where
  "dict_set k v [] = [(k, v)]"
| "dict_set k v ((k', v') # kvs) =
     (if k' = k then (k, v) # kvs else (k', v') # dict_set k v kvs)"

text \<open>
  \<^verbatim>\<open>d[k][field] += 1\<close>: the entry under \<open>k\<close> is changed in place. The collector
  only does this right after it has stored an entry under the same key, so the
  lookup cannot miss there; a dict without the key is returned as it is.
\<close>

fun dict_modify :: "'k \<Rightarrow> ('v \<Rightarrow> 'v) \<Rightarrow> ('k \<times> 'v) list \<Rightarrow> ('k \<times> 'v) list" where
  "dict_modify k g [] = []"
| "dict_modify k g ((k', v') # kvs) =
     (if k' = k then (k', g v') # kvs else (k', v') # dict_modify k g kvs)"

text \<open>\<^verbatim>\<open>str\<close> of an integer.\<close>

definition digit_char :: "nat \<Rightarrow> char" where
  "digit_char n = ''0123456789'' ! n"

fun str_nat :: "nat \<Rightarrow> string" where
  "str_nat n =
     (if n < 10 then [digit_char n] else str_nat (n div 10) @ [digit_char (n mod 10)])"

declare str_nat.simps [simp del]

definition str_int :: "int \<Rightarrow> string" where
  "str_int i = (if i < 0 then CHR ''-'' # str_nat (nat (- i)) else str_nat (nat i))"

text \<open>
  The body of the \<^verbatim>\<open>for message in messages\<close> loop for one message: the call of
  \<^verbatim>\<open>save_message\<close> and the counter it moves. An exception out of \<^verbatim>\<open>save_message\<close>
  leaves the loop.
\<close>

definition count_saved :: "string \<Rightarrow> collector \<Rightarrow> collector" where
  "count_saved channel c =
     c\<lparr>collection_stats :=
          dict_modify channel (\<lambda>st. st\<lparr>saved := saved st + 1\<rparr>) (collection_stats c)\<rparr>"

definition count_error :: "string \<Rightarrow> collector \<Rightarrow> collector" where
  "count_error channel c =
     c\<lparr>collection_stats :=
          dict_modify channel (\<lambda>st. st\<lparr>errors := errors st + 1\<rparr>) (collection_stats c)\<rparr>"

definition save_one ::
  "settings \<Rightarrow> collector \<Rightarrow> string \<Rightarrow> int \<Rightarrow> message \<Rightarrow> db_faults \<Rightarrow> unit outcome \<times> collector" where
  "save_one s c channel entity_id m f =
     (case save_message s (db c) f (str_int entity_id)
             (msg_id m) (msg_date m) (msg_text m) (msg_views m) of
        (Raised, d) \<Rightarrow> (Raised, c\<lparr>db := d\<rparr>)
      | (Returned ok, d) \<Rightarrow>
          (Returned (),
           if ok then count_saved channel (c\<lparr>db := d\<rparr>)
           else count_error channel (c\<lparr>db := d\<rparr>)))"

definition next_fault :: "db_faults list \<Rightarrow> db_faults" where
  "next_fault fs = (case fs of [] \<Rightarrow> no_fault | f # rest \<Rightarrow> f)"

fun save_all ::
  "settings \<Rightarrow> collector \<Rightarrow> string \<Rightarrow> int \<Rightarrow> message list \<Rightarrow> db_faults list
     \<Rightarrow> unit outcome \<times> collector" where
  "save_all s c channel entity_id [] fs = (Returned (), c)"
| "save_all s c channel entity_id (m # ms) fs =
     (case save_one s c channel entity_id m (next_fault fs) of
        (Raised, c1) \<Rightarrow> (Raised, c1)
      | (Returned u, c1) \<Rightarrow> save_all s c1 channel entity_id ms (tl fs))"

text \<open>
  The \<^verbatim>\<open>except\<close> clauses of \<^verbatim>\<open>collect_channel_messages\<close>, each followed by the
  \<^verbatim>\<open>finally\<close> clause (the log line with the duration).
\<close>

definition failure_events :: "api_error \<Rightarrow> event list" where
  "failure_events e =
     (case e of
        FloodWaitError wait_time \<Rightarrow> [Log WARNING, Sleep wait_time, Log INFO]
      | ChannelPrivateError \<Rightarrow> [Log ERROR, Log INFO]
      | ChatAdminRequiredError \<Rightarrow> [Log ERROR, Log INFO]
      | ValueError \<Rightarrow> [Log ERROR, Log INFO]
      | OtherError \<Rightarrow> [Log ERROR, Log INFO])"

definition collect_failed :: "collector \<Rightarrow> api_error \<Rightarrow> bool \<times> collector" where
  "collect_failed c e = (False, tell c (failure_events e))"

text \<open>
  \<^verbatim>\<open>collect_channel_messages\<close>. An exception that leaves \<^verbatim>\<open>save_message\<close> comes from
  the database driver and lands in \<^verbatim>\<open>except Exception\<close>.
\<close>

definition collect_channel_messages ::
  "settings \<Rightarrow> collector \<Rightarrow> string \<Rightarrow> channel_env \<Rightarrow> bool \<times> collector" where
  "collect_channel_messages s c channel e =
     (let c0 = tell c [Log INFO, GetEntity channel] in
      case collect_entity e of
        Inl err \<Rightarrow> collect_failed c0 err
      | Inr entity_id \<Rightarrow>
          (let c1 = tell c0 [GetMessages entity_id (MESSAGES_LIMIT s)] in
           case collect_messages e of
             Inl err \<Rightarrow> collect_failed c1 err
           | Inr messages \<Rightarrow>
               (let c2 = c1\<lparr>collection_stats :=
                              dict_set channel
                                \<lparr>processed = int (length messages), saved = 0, errors = 0\<rparr>
                                (collection_stats c1)\<rparr> in
                case save_all s c2 channel entity_id messages (save_faults e) of
                  (Raised, c3) \<Rightarrow> collect_failed c3 OtherError
                | (Returned u, c3) \<Rightarrow> (True, tell c3 [Log INFO, Log INFO]))))"

text \<open>
  Python's \<^verbatim>\<open>str.strip()\<close>: the white space of \<^verbatim>\<open>str.isspace\<close> among the code points
  below 256 (a \<open>char\<close> is read as one such code point).
\<close>

definition isspace :: "char \<Rightarrow> bool" where
  "isspace c \<longleftrightarrow>
     c \<in> set [CHR 0x09, CHR 0x0A, CHR 0x0B, CHR 0x0C, CHR 0x0D, CHR 0x1C, CHR 0x1D,
              CHR 0x1E, CHR 0x1F, CHR 0x20, CHR 0x85, CHR 0xA0]"

definition strip :: "string \<Rightarrow> string" where
  "strip v = rev (dropWhile isspace (rev (dropWhile isspace v)))"

text \<open>\<^verbatim>\<open>validate_channel\<close>: every exception of \<^verbatim>\<open>get_entity\<close> is caught and logged.\<close>

definition validate_channel :: "collector \<Rightarrow> string \<Rightarrow> channel_env \<Rightarrow> bool \<times> collector" where
  "validate_channel c channel e =
     (case validate_entity e of
        Inr entity_id \<Rightarrow> (True, tell c [GetEntity channel, Log INFO])
      | Inl err \<Rightarrow> (False, tell c [GetEntity channel, Log ERROR]))"

text \<open>
  The loop of \<^verbatim>\<open>collect_all_channels\<close> that fills \<^verbatim>\<open>tasks\<close>: every configured
  channel, in configuration order and with what the world answers for it, is
  stripped, skipped when empty, validated, and appended when valid.
\<close>

fun validated_tasks ::
  "collector \<Rightarrow> (string \<times> channel_env) list \<Rightarrow> (string \<times> channel_env) list \<times> collector" where
  "validated_tasks c [] = ([], c)"
| "validated_tasks c ((ch, e) # rest) =
     (let channel = strip ch in
      if channel = [] then validated_tasks c rest
      else
        (case validate_channel c channel e of
           (False, c1) \<Rightarrow> validated_tasks c1 rest
         | (True, c1) \<Rightarrow>
             (case validated_tasks c1 rest of
                (tasks, c2) \<Rightarrow> ((channel, e) # tasks, c2))))"

text \<open>
  \<^verbatim>\<open>asyncio.gather(*tasks, return_exceptions=True)\<close>. The coroutine
  \<^verbatim>\<open>collect_channel_messages\<close> has no \<^verbatim>\<open>await\<close> between the return of
  \<^verbatim>\<open>get_messages\<close> and its own return, and one whose fetch fails changes neither
  the statistics nor the database; so the tasks take effect one after another, in the
  order in which their fetches complete. That order is the event loop's choice:
  \<open>picks\<close> gives, step by step, which of the tasks still pending completes next
  (taken modulo their number, first task when \<open>picks\<close> is used up). Every task is
  awaited, whatever the others return. The events of one task are listed
  together, at its completion.
\<close>

definition next_pick :: "nat list \<Rightarrow> nat" where
  "next_pick ps = (case ps of [] \<Rightarrow> 0 | k # rest \<Rightarrow> k)"

function pick_order :: "nat list \<Rightarrow> 'a list \<Rightarrow> 'a list" where
  "pick_order ps [] = []"
| "pick_order ps (x # xs) =
     ((x # xs) ! (next_pick ps mod Suc (length xs))) #
     pick_order (tl ps)
       (take (next_pick ps mod Suc (length xs)) (x # xs) @
        drop (Suc (next_pick ps mod Suc (length xs))) (x # xs))"
  by pat_completeness auto
termination
  by (relation "measure (\<lambda>(ps, xs). length xs)") auto

text \<open>The tasks run in completion order; the results are listed in that order.\<close>

fun run_tasks ::
  "settings \<Rightarrow> collector \<Rightarrow> (string \<times> channel_env) list \<Rightarrow> bool list \<times> collector" where
  "run_tasks s c [] = ([], c)"
| "run_tasks s c ((channel, e) # rest) =
     (case collect_channel_messages s c channel e of
        (r, c1) \<Rightarrow> (case run_tasks s c1 rest of (rs, c2) \<Rightarrow> (r # rs, c2)))"

definition gather ::
  "settings \<Rightarrow> nat list \<Rightarrow> collector \<Rightarrow> (string \<times> channel_env) list \<Rightarrow> bool list \<times> collector" where
  "gather s ps c tasks = run_tasks s c (pick_order ps tasks)"

text \<open>\<^verbatim>\<open>_log_collection_summary\<close>\<close>

definition total :: "(CollectionStats \<Rightarrow> int) \<Rightarrow> (string \<times> CollectionStats) list \<Rightarrow> int" where
  "total field stats = sum_list (map (\<lambda>(channel, st). field st) stats)"

definition summary :: "collector \<Rightarrow> event" where
  "summary c =
     Summary (int (length (collection_stats c)))
       (total processed (collection_stats c))
       (total saved (collection_stats c))
       (total errors (collection_stats c))"

definition log_collection_summary :: "collector \<Rightarrow> collector" where
  "log_collection_summary c = tell c [summary c]"

text \<open>What the world answers during one cycle.\<close>

record cycle_env =
  client_fails :: bool
  answers :: "nat \<Rightarrow> channel_env"
  picks :: "nat list"

text \<open>
  \<^verbatim>\<open>settings.TELEGRAM_CHANNELS\<close> with the answers of this cycle: the answer for the
  channel at position \<open>i\<close> is \<open>answers env i\<close>.
\<close>

definition configured :: "settings \<Rightarrow> cycle_env \<Rightarrow> (string \<times> channel_env) list" where
  "configured s env =
     zip (TELEGRAM_CHANNELS s) (map (answers env) [0..<length (TELEGRAM_CHANNELS s)])"

text \<open>\<^verbatim>\<open>success = any(result is True for result in results)\<close>\<close>

definition any_true :: "bool list \<Rightarrow> bool" where
  "any_true results = list_ex (\<lambda>result. result = True) results"

text \<open>
  \<^verbatim>\<open>collect_all_channels\<close>. Entering \<^verbatim>\<open>async with client\<close> raises when the client
  cannot connect, and the exception leaves the method. The source returns
  nothing; the model returns the final value of the local variable \<^verbatim>\<open>success\<close>.
\<close>

definition collect_all_channels ::
  "settings \<Rightarrow> collector \<Rightarrow> cycle_env \<Rightarrow> bool outcome \<times> collector" where
  "collect_all_channels s c env =
     (let c0 = c\<lparr>collection_stats := []\<rparr> in
      if client_fails env then (Raised, c0)
      else
        (case validated_tasks c0 (configured s env) of
           (tasks, c1) \<Rightarrow>
             (case (if tasks \<noteq> [] then gather s (picks env) c1 tasks else ([], c1)) of
                (results, c2) \<Rightarrow>
                  (let success = (tasks \<noteq> [] \<and> any_true results);
                       c3 = (if \<not> success then tell c2 [Log CRITICAL] else c2)
                   in (Returned success, log_collection_summary c3)))))"

text \<open>\<^verbatim>\<open>run_collection\<close>: whatever \<^verbatim>\<open>collect_all_channels\<close> raises is logged.\<close>

definition run_collection :: "settings \<Rightarrow> collector \<Rightarrow> cycle_env \<Rightarrow> unit outcome \<times> collector" where
  "run_collection s c env =
     (case collect_all_channels s c env of
        (Raised, c1) \<Rightarrow> (Returned (), tell c1 [Log ERROR])
      | (Returned success, c1) \<Rightarrow> (Returned (), c1))"





section \<open>config.py: loading and validation\<close>

text \<open>
  What the environment and the \<^verbatim>\<open>.env\<close> file give for each field, after the
  coercion to the field's type (\<open>None\<close>: not set). A value that cannot be coerced
  to the type of its field is rejected before the checks below.
\<close>

record environ =
  env_API_ID :: "string option"
  env_API_HASH :: "string option"
  env_SESSION_NAME :: "string option"
  env_DB_HOST :: "string option"
  env_DB_PORT :: "int option"
  env_DB_NAME :: "string option"
  env_DB_USER :: "string option"
  env_DB_PASSWORD :: "string option"
  env_DATABASE_URL :: "dsn option"
  env_TELEGRAM_CHANNELS :: "string option"
  env_MESSAGES_LIMIT :: "int option"
  env_COLLECTION_INTERVAL :: "int option"
  env_LOG_LEVEL :: "string option"

text \<open>\<^verbatim>\<open>str.split(sep)\<close> for a separator of one character.\<close>

fun split :: "char \<Rightarrow> string \<Rightarrow> string list" where
  "split sep [] = [[]]"
| "split sep (c # cs) =
     (if c = sep then [] # split sep cs
      else (case split sep cs of
              [] \<Rightarrow> [[c]]
            | w # ws \<Rightarrow> (c # w) # ws))"

text \<open>\<^verbatim>\<open>str.startswith\<close> and the substring test \<^verbatim>\<open>sub in v\<close>.\<close>

fun startswith :: "string \<Rightarrow> string \<Rightarrow> bool" where
  "startswith v [] = True"
| "startswith [] (p # ps) = False"
| "startswith (c # cs) (p # ps) = (c = p \<and> startswith cs ps)"

fun contains :: "string \<Rightarrow> string \<Rightarrow> bool" where
  "contains [] sub = (sub = [])"
| "contains (c # cs) sub = (startswith (c # cs) sub \<or> contains cs sub)"

text \<open>The test on one channel in \<^verbatim>\<open>split_channels\<close>.\<close>

definition channel_format_ok :: "string \<Rightarrow> bool" where
  "channel_format_ok channel \<longleftrightarrow>
     startswith channel ''@'' \<or>
     startswith channel ''https://t.me/'' \<or>
     startswith channel ''-100'' \<or>
     contains channel ''joinchat''"

text \<open>
  \<^verbatim>\<open>split_channels\<close>: \<open>channel_entries\<close> is the list comprehension
  \<^verbatim>\<open>[c.strip() for c in v.split(',') if c.strip()]\<close>; \<open>Inl\<close> is the \<^verbatim>\<open>ValueError\<close>
  (no channel at all, or the first channel of a wrong format).
\<close>

datatype channels_error = NoChannel | WrongFormat string

definition channel_entries :: "string \<Rightarrow> string list" where
  "channel_entries v = map strip (filter (\<lambda>c. strip c \<noteq> []) (split CHR '','' v))"

definition split_channels :: "string \<Rightarrow> channels_error + string list" where
  "split_channels v =
     (let channels = channel_entries v in
      if channels = [] then Inl NoChannel
      else (case find (\<lambda>channel. \<not> channel_format_ok channel) channels of
              Some channel \<Rightarrow> Inl (WrongFormat channel)
            | None \<Rightarrow> Inr channels))"

text \<open>\<^verbatim>\<open>assemble_db_url\<close>\<close>

definition assemble_db_url :: "settings \<Rightarrow> settings" where
  "assemble_db_url s =
     (case DATABASE_URL s of
        Some url \<Rightarrow> s
      | None \<Rightarrow>
          s\<lparr>DATABASE_URL :=
               Some \<lparr>scheme = ''postgresql'', username = DB_USER s,
                      password = DB_PASSWORD s, host = DB_HOST s, port = DB_PORT s,
                      path = DB_NAME s\<rparr>\<rparr>)"

text \<open>
  The checks of the fields, each giving the names of the fields it rejects:
  required fields, the bounds \<^verbatim>\<open>ge\<close>/\<^verbatim>\<open>le\<close>, the pattern of \<^verbatim>\<open>LOG_LEVEL\<close>, and the
  validator of \<^verbatim>\<open>TELEGRAM_CHANNELS\<close>. Defaults are checked like given values.
\<close>

definition get_or :: "'a \<Rightarrow> 'a option \<Rightarrow> 'a" where
  "get_or dflt v = (case v of None \<Rightarrow> dflt | Some x \<Rightarrow> x)"

definition required :: "string \<Rightarrow> string option \<Rightarrow> string list" where
  "required name v = (case v of None \<Rightarrow> [name] | Some x \<Rightarrow> [])"

definition check :: "string \<Rightarrow> bool \<Rightarrow> string list" where
  "check name ok = (if ok then [] else [name])"

definition channels_of :: "environ \<Rightarrow> channels_error + string list" where
  "channels_of ev = split_channels (get_or ''@telegram'' (env_TELEGRAM_CHANNELS ev))"

definition validation_errors :: "environ \<Rightarrow> string list" where
  "validation_errors ev =
     required ''API_ID'' (env_API_ID ev) @
     required ''API_HASH'' (env_API_HASH ev) @
     check ''TELEGRAM_CHANNELS'' (\<not> isl (channels_of ev)) @
     check ''MESSAGES_LIMIT''
       (1 \<le> get_or 50 (env_MESSAGES_LIMIT ev) \<and> get_or 50 (env_MESSAGES_LIMIT ev) \<le> 100) @
     check ''COLLECTION_INTERVAL'' (1 \<le> get_or 60 (env_COLLECTION_INTERVAL ev)) @
     check ''LOG_LEVEL''
       (get_or ''INFO'' (env_LOG_LEVEL ev) \<in>
          set [''DEBUG'', ''INFO'', ''WARNING'', ''ERROR'', ''CRITICAL''])"

text \<open>
  \<^verbatim>\<open>Settings()\<close>: \<open>Inl\<close> is the \<^verbatim>\<open>ValidationError\<close>, with the rejected fields. The
  model validator \<^verbatim>\<open>assemble_db_url\<close> runs once the fields are accepted.
\<close>

definition Settings_init :: "environ \<Rightarrow> string list + settings" where
  "Settings_init ev =
     (if validation_errors ev \<noteq> [] then Inl (validation_errors ev)
      else
        Inr (assemble_db_url
          \<lparr>API_ID = get_or [] (env_API_ID ev),
           API_HASH = get_or [] (env_API_HASH ev),
           SESSION_NAME = get_or ''collector'' (env_SESSION_NAME ev),
           DB_HOST = get_or ''localhost'' (env_DB_HOST ev),
           DB_PORT = get_or 5432 (env_DB_PORT ev),
           DB_NAME = get_or ''telegram_collector'' (env_DB_NAME ev),
           DB_USER = get_or ''postgres'' (env_DB_USER ev),
           DB_PASSWORD = get_or ''postgres'' (env_DB_PASSWORD ev),
           DATABASE_URL = env_DATABASE_URL ev,
           TELEGRAM_CHANNELS = (case channels_of ev of Inr channels \<Rightarrow> channels | Inl err \<Rightarrow> []),
           MESSAGES_LIMIT = get_or 50 (env_MESSAGES_LIMIT ev),
           COLLECTION_INTERVAL = get_or 60 (env_COLLECTION_INTERVAL ev),
           LOG_LEVEL = get_or ''INFO'' (env_LOG_LEVEL ev)\<rparr>))"





section \<open>Concrete inputs\<close>

text \<open>Settings as the defaults of \<^verbatim>\<open>config.py\<close> give them, with two channels.\<close>

definition ex_settings :: settings where
  "ex_settings =
     \<lparr>API_ID = ''12345678'', API_HASH = ''0123456789abcdef'',
      SESSION_NAME = ''collector'', DB_HOST = ''localhost'', DB_PORT = 5432,
      DB_NAME = ''telegram_collector'', DB_USER = ''postgres'',
      DB_PASSWORD = ''postgres'', DATABASE_URL = None,
      TELEGRAM_CHANNELS = [''@alpha'', ''@beta''], MESSAGES_LIMIT = 50,
      COLLECTION_INTERVAL = 60, LOG_LEVEL = ''INFO''\<rparr>"

text \<open>A server on which the database exists and is empty, before and after \<^verbatim>\<open>init_db\<close>.\<close>

definition ex_fresh_server :: server where
  "ex_fresh_server =
     \<lparr>databases = [''telegram_collector''], catalog = [], posts = [], next_id = 1\<rparr>"

definition ex_ready_server :: server where
  "ex_ready_server =
     \<lparr>databases = [''telegram_collector''],
      catalog = [''telegram_posts'', ''telegram_posts_channel_message_idx'',
                 ''telegram_posts_published_at_idx''],
      posts = [], next_id = 1\<rparr>"

definition ex_execute_fault :: db_faults where
  "ex_execute_fault = \<lparr>connect_fails = False, execute_fails = True,
                        commit_fails = False, rollback_fails = False\<rparr>"

definition ex_message :: "int \<Rightarrow> message" where
  "ex_message n = \<lparr>msg_id = n, msg_date = 1700000000 + n,
                    msg_text = Some ''hello'', msg_views = Some 10\<rparr>"

text \<open>
  Channel answers: \<open>@alpha\<close> resolves to entity 7 and returns two messages;
  \<open>@beta\<close> resolves to entity 8 and its fetch is refused (private channel), or
  is rate limited for 30 seconds.
\<close>

definition ex_alpha :: channel_env where
  "ex_alpha =
     \<lparr>validate_entity = Inr 7, collect_entity = Inr 7,
      collect_messages = Inr [ex_message 1, ex_message 2], save_faults = []\<rparr>"

definition ex_beta_denied :: channel_env where
  "ex_beta_denied =
     \<lparr>validate_entity = Inr 8, collect_entity = Inr 8,
      collect_messages = Inl ChannelPrivateError, save_faults = []\<rparr>"

definition ex_beta_limited :: channel_env where
  "ex_beta_limited =
     \<lparr>validate_entity = Inr 8, collect_entity = Inr 8,
      collect_messages = Inl (FloodWaitError 30), save_faults = []\<rparr>"

definition ex_collector :: collector where
  "ex_collector =
     \<lparr>db = Database_init ex_settings ex_ready_server, collection_stats = [], trace = []\<rparr>"

text \<open>The collector after one collection of \<open>@alpha\<close>: both messages are stored.\<close>

definition ex_collected :: collector where
  "ex_collected = snd (collect_channel_messages ex_settings ex_collector ''@alpha'' ex_alpha)"

text \<open>
  Cycles over the two channels of \<open>ex_settings\<close>: \<open>@alpha\<close> collected and \<open>@beta\<close>
  refused, with \<open>@beta\<close> completing first; and a cycle in which both are refused.
\<close>

definition ex_cycle :: cycle_env where
  "ex_cycle =
     \<lparr>client_fails = False,
      answers = (\<lambda>i. if i = 0 then ex_alpha else ex_beta_denied),
      picks = [1]\<rparr>"

definition ex_cycle_refused :: cycle_env where
  "ex_cycle_refused =
     \<lparr>client_fails = False, answers = (\<lambda>i. ex_beta_denied), picks = []\<rparr>"

text \<open>A cycle in which the client cannot connect.\<close>

definition ex_cycle_offline :: cycle_env where
  "ex_cycle_offline =
     \<lparr>client_fails = True, answers = (\<lambda>i. ex_alpha), picks = []\<rparr>"

text \<open>
  An environment that supplies the credentials and a ready-made database URL and
  leaves the individual database settings to their defaults; then the same with
  a channel list holding a malformed reference, a limit out of range, and an
  interval out of range.
\<close>

definition ex_url :: dsn where
  "ex_url =
     \<lparr>scheme = ''postgresql'', username = ''collector'', password = ''secret'',
      host = ''db.internal'', port = 6432, path = ''posts''\<rparr>"

definition ex_environ :: environ where
  "ex_environ =
     \<lparr>env_API_ID = Some ''12345678'', env_API_HASH = Some ''0123456789abcdef'',
      env_SESSION_NAME = None, env_DB_HOST = None, env_DB_PORT = None,
      env_DB_NAME = None, env_DB_USER = None, env_DB_PASSWORD = None,
      env_DATABASE_URL = Some ex_url,
      env_TELEGRAM_CHANNELS = Some ''@alpha, @beta'',
      env_MESSAGES_LIMIT = None, env_COLLECTION_INTERVAL = None,
      env_LOG_LEVEL = None\<rparr>"

text \<open>The settings loaded from \<open>ex_environ\<close>.\<close>

definition ex_url_settings :: settings where
  "ex_url_settings = ex_settings\<lparr>DATABASE_URL := Some ex_url\<rparr>"








section \<open>Vocabulary of the properties\<close>

text \<open>The counts of one channel are consistent.\<close>

definition stats_ok :: "CollectionStats \<Rightarrow> bool" where
  "stats_ok st \<longleftrightarrow> 0 \<le> saved st \<and> 0 \<le> errors st \<and> saved st + errors st \<le> processed st"

text \<open>The driver raises neither at getting a connection, nor at the statement, nor at the commit.\<close>

definition driver_ok :: "db_faults \<Rightarrow> bool" where
  "driver_ok f \<longleftrightarrow> \<not> connect_fails f \<and> \<not> execute_fails f \<and> \<not> commit_fails f"

text \<open>The table and the unique index that \<^verbatim>\<open>save_message\<close> relies on exist.\<close>

definition schema_ready :: "database \<Rightarrow> bool" where
  "schema_ready d \<longleftrightarrow>
     telegram_posts \<in> set (catalog (server d)) \<and>
     telegram_posts_channel_message_idx \<in> set (catalog (server d))"

text \<open>Both client calls of \<^verbatim>\<open>collect_channel_messages\<close> return.\<close>

definition fetched :: "channel_env \<Rightarrow> bool" where
  "fetched e \<longleftrightarrow> \<not> isl (collect_entity e) \<and> \<not> isl (collect_messages e)"

text \<open>
  The channel is resolved and \<^verbatim>\<open>get_messages\<close> raises \<open>err\<close>; access denied is
  one of the two errors the client has for it.
\<close>

definition fetch_fails :: "channel_env \<Rightarrow> api_error \<Rightarrow> bool" where
  "fetch_fails e err \<longleftrightarrow> \<not> isl (collect_entity e) \<and> collect_messages e = Inl err"

definition access_denied :: "channel_env \<Rightarrow> bool" where
  "access_denied e \<longleftrightarrow>
     fetch_fails e ChannelPrivateError \<or> fetch_fails e ChatAdminRequiredError"

text \<open>The event is a call of \<^verbatim>\<open>get_messages\<close>.\<close>

definition is_fetch :: "event \<Rightarrow> bool" where
  "is_fetch ev = (case ev of GetMessages entity_id limit \<Rightarrow> True | _ \<Rightarrow> False)"

text \<open>
  The channel references, each once, of the tasks whose fetch returned: the keys
  under which a cycle records statistics.
\<close>

definition fetched_channels :: "(string \<times> channel_env) list \<Rightarrow> string list" where
  "fetched_channels tasks = remdups (map fst (filter (\<lambda>(channel, e). fetched e) tasks))"

text \<open>The connection arguments are those the URL names.\<close>

definition connects_to :: "connect_args \<Rightarrow> dsn \<Rightarrow> bool" where
  "connects_to args url \<longleftrightarrow>
     ca_host args = host url \<and> ca_port args = port url \<and>
     ca_user args = username url \<and> ca_password args = password url \<and>
     ca_database args = path url"

text \<open>The arguments the pool of a database object opens its connections with.\<close>

definition pool_args :: "database outcome \<Rightarrow> connect_args option" where
  "pool_args r = (case r of Raised \<Rightarrow> None | Returned d \<Rightarrow> map_option fst (pool d))"










text \<open>
  The value of the local variable \<^verbatim>\<open>success\<close> when \<^verbatim>\<open>collect_all_channels\<close> is left:
  the value the model returns, and False, the value of the first assignment,
  when entering \<^verbatim>\<open>async with client\<close> raised.
\<close>

definition success_flag :: "settings \<Rightarrow> collector \<Rightarrow> cycle_env \<Rightarrow> bool" where
  "success_flag s c env =
     (case fst (collect_all_channels s c env) of Returned success \<Rightarrow> success | Raised \<Rightarrow> False)"

text \<open>
  The invocations of \<^verbatim>\<open>collect_channel_messages\<close> for a list of tasks that take
  effect in the order of the list, starting in the state \<open>c\<close>: the state after
  all of them, and what the invocation for the task at position \<open>i\<close> returns.
\<close>

fun after_tasks :: "settings \<Rightarrow> collector \<Rightarrow> (string \<times> channel_env) list \<Rightarrow> collector" where
  "after_tasks s c [] = c"
| "after_tasks s c ((channel, e) # rest) =
     after_tasks s (snd (collect_channel_messages s c channel e)) rest"

definition invocation_result ::
  "settings \<Rightarrow> collector \<Rightarrow> (string \<times> channel_env) list \<Rightarrow> nat \<Rightarrow> bool" where
  "invocation_result s c order i =
     fst (collect_channel_messages s (after_tasks s c (take i order))
            (fst (order ! i)) (snd (order ! i)))"





section \<open>Properties of the persistence gateway\<close>

lemma in_use_emit [simp]: "in_use (emit d es) = in_use d"
  by (simp add: in_use_def emit_def)

lemma server_emit [simp]: "server (emit d es) = server d"
  by (simp add: emit_def)

lemma journal_emit [simp]: "journal (emit d es) = journal d @ es"
  by (simp add: emit_def)

lemma pool_emit [simp]: "pool (emit d es) = pool d"
  by (simp add: emit_def)

lemma get_connection_Returned:
  assumes "get_connection s d f = Returned d1"
  shows "in_use d1 = Suc (in_use d)" and "server d1 = server d"
    and "journal d1 = journal d @ [GetConn]" and "pool d1 \<noteq> None"
    and "\<not> connect_fails f" and "in_use d < maxconn"
  using assms
  by (auto simp: get_connection_def init_pool_def in_use_def
      split: option.splits outcome.splits if_splits prod.splits)

lemma return_connection_props:
  assumes "pool d \<noteq> None"
  shows "in_use (return_connection d) = in_use d - 1"
    and "server (return_connection d) = server d"
    and "journal (return_connection d) = journal d @ [PutConn]"
  using assms
  by (auto simp: return_connection_def in_use_def split: option.splits)

lemma save_failed_props:
  assumes "pool d \<noteq> None" and "save_failed d f es = (r, d')"
  shows "in_use d' = in_use d - 1" and "server d' = server d"
    and "journal d' = journal d @ es @ [Log ERROR, Rollback, PutConn]"
    and "r = (if rollback_fails f then Raised else Returned False)"
  using assms
  by (auto simp: save_failed_def return_connection_props split: if_splits)

lemma in_use_server_update [simp]: "in_use (d\<lparr>server := x\<rparr>) = in_use d"
  by (simp add: in_use_def)

lemma save_message_cases:
  assumes "save_message s d f cid mid pub txt vws = (r, d')"
  obtains
    (no_conn) "get_connection s d f = Raised" "r = Raised" "d' = d"
  | (failed) d1 d2 es where "get_connection s d f = Returned d1"
      "save_failed d2 f es = (r, d')" "pool d2 = pool d1" "journal d2 = journal d1"
      "posts (server d2) = posts (server d)" "catalog (server d2) = catalog (server d)"
      "set es \<subseteq> {Execute InsertPost, Commit}"
      "execute_fails f \<or> commit_fails f \<or> insert_post (server d) cid mid pub txt vws = Raised"
  | (ok) d1 result pending where "get_connection s d f = Returned d1"
      "\<not> execute_fails f" "\<not> commit_fails f" "r = Returned True"
      "insert_post (server d) cid mid pub txt vws = Returned (result, pending)"
      "d' = return_connection
              (emit (d1\<lparr>server := (server d)\<lparr>next_id := Suc (next_id (server d)),
                                               posts := posts (server d) @ pending\<rparr>\<rparr>)
                 ([Execute InsertPost, Commit] @ (if result = None then [] else [Log DEBUG])))"
proof (cases "get_connection s d f")
  case Raised
  have "r = Raised" "d' = d"
    using assms Raised by (simp_all add: save_message_def)
  with Raised show ?thesis by (rule no_conn)
next
  case (Returned d1)
  note gc = get_connection_Returned [OF Returned]
  have sub1: "set [Execute InsertPost] \<subseteq> {Execute InsertPost, Commit}" by simp
  have sub2: "set [Execute InsertPost, Commit] \<subseteq> {Execute InsertPost, Commit}" by simp
  show ?thesis
  proof (cases "execute_fails f")
    case True
    have "save_failed d1 f [Execute InsertPost] = (r, d')"
      using assms Returned True by (simp add: save_message_def)
    then show ?thesis
      using failed [OF Returned _ refl refl _ _ sub1] gc(2) True by simp
  next
    case nx: False
    show ?thesis
    proof (cases "insert_post (server d) cid mid pub txt vws")
      case Raised
      have "save_failed d1 f [Execute InsertPost] = (r, d')"
        using assms Returned nx Raised gc(2) by (simp add: save_message_def)
      then show ?thesis
        using failed [OF Returned _ refl refl _ _ sub1] gc(2) Raised by simp
    next
      case ins: (Returned rp)
      obtain result pending where rp: "rp = (result, pending)" by (cases rp)
      show ?thesis
      proof (cases "commit_fails f")
        case True
        let ?d2 = "d1\<lparr>server := (server d1)\<lparr>next_id := Suc (next_id (server d1))\<rparr>\<rparr>"
        have "save_failed ?d2 f [Execute InsertPost, Commit] = (r, d')"
          using assms Returned nx ins rp True gc(2) by (simp add: save_message_def)
        then show ?thesis
          using failed [OF Returned, of ?d2, OF _ _ _ _ _ sub2] gc(2) True by simp
      next
        case False
        have "r = Returned True"
          "d' = return_connection
              (emit (d1\<lparr>server := (server d)\<lparr>next_id := Suc (next_id (server d)),
                                               posts := posts (server d) @ pending\<rparr>\<rparr>)
                 ([Execute InsertPost, Commit] @ (if result = None then [] else [Log DEBUG])))"
          using assms Returned nx ins rp False gc(2) by (simp_all add: save_message_def)
        then show ?thesis
          using ok [OF Returned nx False] ins rp by simp
      qed
    qed
  qed
qed

lemma one_row_of_key:
  "distinct (map k ps) \<Longrightarrow> list_ex (\<lambda>p. k p = x) ps \<Longrightarrow> length (filter (\<lambda>p. k p = x) ps) = 1"
proof (induction ps)
  case Nil
  then show ?case by simp
next
  case (Cons p ps)
  show ?case
  proof (cases "k p = x")
    case True
    with Cons.prems(1) have "\<forall>q\<in>set ps. k q \<noteq> x" by (auto simp: image_iff)
    then have "filter (\<lambda>p. k p = x) ps = []" by (simp add: filter_empty_conv)
    with True show ?thesis by simp
  next
    case False
    with Cons show ?thesis by simp
  qed
qed

lemma conflict_one_row:
  assumes "unique_keys d" and "conflicts (posts (server d)) cid mid"
  shows "length (rows_with_key d cid mid) = 1"
  using one_row_of_key [of "\<lambda>p. (channel_id p, message_id p)" "posts (server d)" "(cid, mid)"] assms
  by (simp add: unique_keys_def conflicts_def rows_with_key_def)

lemma insert_post_Returned:
  assumes "insert_post srv cid mid pub txt vws = Returned (result, pending)"
  shows "telegram_posts \<in> set (catalog srv)"
    and "telegram_posts_channel_message_idx \<in> set (catalog srv)"
    and "conflicts (posts srv) cid mid \<Longrightarrow> result = None \<and> pending = []"
    and "\<not> conflicts (posts srv) cid mid \<Longrightarrow>
           result = Some (next_id srv) \<and>
           pending = [\<lparr>post_id = next_id srv, channel_id = cid, message_id = mid,
                      published_at = pub, post_text = txt, views = vws\<rparr>]"
  using assms by (auto simp: insert_post_def split: if_splits)

lemma server_return_connection [simp]: "server (return_connection d) = server d"
  by (simp add: return_connection_def split: option.splits)

lemma save_message_True:
  assumes "save_message s d f cid mid pub txt vws = (Returned True, d')"
  shows "conflicts (posts (server d')) cid mid \<and>
         (conflicts (posts (server d)) cid mid \<longrightarrow> posts (server d') = posts (server d)) \<and>
         catalog (server d') = catalog (server d) \<and>
         telegram_posts \<in> set (catalog (server d)) \<and>
         telegram_posts_channel_message_idx \<in> set (catalog (server d)) \<and>
         (unique_keys d \<longrightarrow> unique_keys d') \<and>
         (unique_keys d \<longrightarrow> length (rows_with_key d' cid mid) = 1) \<and>
         in_use d < maxconn"
  using assms
proof (cases rule: save_message_cases)
  case no_conn
  then show ?thesis by simp
next
  case (failed d1 d2 es)
  then have False by (auto simp: save_failed_def split: if_splits)
  then show ?thesis ..
next
  case (ok d1 result pending)
  note ip = insert_post_Returned [OF ok(5)]
  have ps: "posts (server d') = posts (server d) @ pending"
    and cat: "catalog (server d') = catalog (server d)"
    using ok(6) by simp_all
  have lt: "in_use d < maxconn" by (rule get_connection_Returned(6) [OF ok(1)])
  have keep: "conflicts (posts (server d)) cid mid \<longrightarrow> posts (server d') = posts (server d)"
    using ps ip(3) by simp
  have c': "conflicts (posts (server d')) cid mid"
  proof (cases "conflicts (posts (server d)) cid mid")
    case True
    with ps ip(3) show ?thesis by simp
  next
    case False
    with ps ip(4) show ?thesis by (simp add: conflicts_def)
  qed
  have u': "unique_keys d'" if u: "unique_keys d"
  proof (cases "conflicts (posts (server d)) cid mid")
    case True
    with ps ip(3) u show ?thesis by (simp add: unique_keys_def)
  next
    case False
    with ps ip(4) u show ?thesis
      by (auto simp: unique_keys_def conflicts_def list_ex_iff)
  qed
  have one: "length (rows_with_key d' cid mid) = 1" if u: "unique_keys d"
    using conflict_one_row [OF u' [OF u] c'] .
  from c' keep cat ip(1,2) u' one lt show ?thesis by blast
qed

lemma save_message_in_use:
  assumes "save_message s d f cid mid pub txt vws = (r, d')"
  shows "in_use d' = in_use d"
  using assms
proof (cases rule: save_message_cases)
  case no_conn
  then show ?thesis by simp
next
  case (failed d1 d2 es)
  note gc = get_connection_Returned [OF failed(1)]
  from gc(4) failed(3) have p: "pool d2 \<noteq> None" by simp
  have "in_use d2 = in_use d1" using failed(3) by (simp add: in_use_def)
  with save_failed_props(1) [OF p failed(2)] gc(1) show ?thesis by simp
next
  case (ok d1 result pending)
  with get_connection_Returned [OF ok(1)] show ?thesis
    by (simp add: return_connection_props)
qed

lemma save_message_no_fault:
  assumes "\<not> connect_fails f" and "\<not> execute_fails f" and "\<not> commit_fails f"
    and "in_use d < maxconn"
    and "telegram_posts \<in> set (catalog (server d))"
    and "telegram_posts_channel_message_idx \<in> set (catalog (server d))"
    and "save_message s d f cid mid pub txt vws = (r, d')"
  shows "r = Returned True"
  using assms(7)
proof (cases rule: save_message_cases)
  case no_conn
  with assms(1,4) show ?thesis
    by (auto simp: get_connection_def init_pool_def in_use_def
        split: option.splits if_splits)
next
  case (failed d1 d2 es)
  with assms(2,3,5,6) show ?thesis
    by (simp add: insert_post_def split: if_splits)
next
  case (ok d1 result pending)
  then show ?thesis by simp
qed

lemma map_of_dict_modify:
  "map_of (dict_modify k g kvs) k' =
     (if k' = k then map_option g (map_of kvs k) else map_of kvs k')"
  by (induction kvs) auto

lemma map_of_dict_set:
  "map_of (dict_set k v kvs) k' = (if k' = k then Some v else map_of kvs k')"
  by (induction kvs) auto

lemmas db_eval =
  save_message_def get_connection_def init_pool_def insert_post_def save_failed_def
  return_connection_def emit_def Database_init_def with_database_def
  telegram_posts_def telegram_posts_channel_message_idx_def
  telegram_posts_published_at_idx_def maxconn_def no_fault_def in_use_def
  conflicts_def rows_with_key_def unique_keys_def
  ex_settings_def ex_fresh_server_def ex_ready_server_def ex_execute_fault_def

text \<open>
  C10. Whatever the arguments, the state and the faults of the driver, an
  invocation of \<^verbatim>\<open>save_message\<close> leaves as many connections out of the pool as it
  found: the connection it took is put back on every exit path, and the call of
  \<^verbatim>\<open>putconn\<close> is the last thing it does. When it returns False, the stored rows
  are those from before the call and \<^verbatim>\<open>rollback\<close> was called before the connection
  went back. No exit other than \<open>Returned True\<close> changes the stored rows.
\<close>

theorem save_message_rollback_and_release:
  assumes "save_message s d f cid mid pub txt vws = (r, d')"
  shows "in_use d' = in_use d \<and>
     (r = Returned False \<longrightarrow>
        posts (server d') = posts (server d) \<and>
        (\<exists>es. journal d' = journal d @ GetConn # es @ [Log ERROR, Rollback, PutConn]
              \<and> PutConn \<notin> set es \<and> Rollback \<notin> set es)) \<and>
     (r \<noteq> Returned True \<longrightarrow> posts (server d') = posts (server d)) \<and>
     (journal d' = journal d \<or>
      (\<exists>es. journal d' = journal d @ GetConn # es @ [PutConn]
            \<and> PutConn \<notin> set es \<and> GetConn \<notin> set es))"
  using assms
proof (cases rule: save_message_cases)
  case no_conn
  then show ?thesis by simp
next
  case (failed d1 d2 es)
  note gc = get_connection_Returned [OF failed(1)]
  from gc(4) failed(3) have p: "pool d2 \<noteq> None" by simp
  note sf = save_failed_props [OF p failed(2)]
  have iu: "in_use d2 = in_use d1" using failed(3) by (simp add: in_use_def)
  have 1: "in_use d' = in_use d" using sf(1) iu gc(1) by simp
  have 2: "posts (server d') = posts (server d)" using sf(2) failed(5) by simp
  have j: "journal d' = journal d @ GetConn # es @ [Log ERROR, Rollback, PutConn]"
    using sf(3) failed(4) gc(3) by simp
  have 3: "PutConn \<notin> set es \<and> Rollback \<notin> set es \<and> GetConn \<notin> set es"
    using failed(7) by auto
  have 4: "journal d' = journal d @ GetConn # (es @ [Log ERROR, Rollback]) @ [PutConn]
           \<and> PutConn \<notin> set (es @ [Log ERROR, Rollback])
           \<and> GetConn \<notin> set (es @ [Log ERROR, Rollback])"
    using j 3 by simp
  show ?thesis using 1 2 j 3 4 by blast
next
  case (ok d1 result pending)
  note gc = get_connection_Returned [OF ok(1)]
  let ?es = "[Execute InsertPost, Commit] @ (if result = None then [] else [Log DEBUG])"
  have 1: "in_use d' = in_use d"
    using ok(6) gc by (simp add: return_connection_props)
  have 4: "journal d' = journal d @ GetConn # ?es @ [PutConn]
       \<and> PutConn \<notin> set ?es \<and> GetConn \<notin> set ?es"
    using ok(6) gc by (simp add: return_connection_props)
  show ?thesis using 1 4 ok(4) by blast
qed

theorem save_message_rollback_and_release_witness:
  "fst (save_message ex_settings (Database_init ex_settings ex_ready_server)
          ex_execute_fault ''7'' 1 0 None None) = Returned False \<and>
   in_use (snd (save_message ex_settings (Database_init ex_settings ex_ready_server)
          ex_execute_fault ''7'' 1 0 None None)) = 0 \<and>
   posts (server (snd (save_message ex_settings (Database_init ex_settings ex_ready_server)
          ex_execute_fault ''7'' 1 0 None None))) = [] \<and>
   journal (snd (save_message ex_settings (Database_init ex_settings ex_ready_server)
          ex_execute_fault ''7'' 1 0 None None)) =
     [GetConn, Execute InsertPost, Log ERROR, Rollback, PutConn]"
proof -
  define d where "d = Database_init ex_settings ex_ready_server"
  define out where "out = save_message ex_settings d ex_execute_fault ''7'' 1 0 None None"
  have run: "save_message ex_settings d ex_execute_fault ''7'' 1 0 None None = (fst out, snd out)"
    by (simp add: out_def)
  have r: "fst out = Returned False"
    by (simp add: out_def d_def db_eval)
  have j: "journal d = []" "in_use d = 0" "posts (server d) = []"
    by (simp_all add: d_def db_eval)
  have jo: "journal (snd out) = [GetConn, Execute InsertPost, Log ERROR, Rollback, PutConn]"
    by (simp add: out_def d_def db_eval)
  from save_message_rollback_and_release [OF run] r j
  have "in_use (snd out) = 0 \<and> posts (server (snd out)) = []"
    by simp
  with r jo show ?thesis
    unfolding out_def d_def by simp
qed

text \<open>
  C1. Let the stored keys be unique, as the unique index keeps them, and let a
  first \<^verbatim>\<open>save_message\<close> for the key \<open>(cid, mid)\<close> have returned True. Then a second
  call with the same key and any payload leaves exactly one stored row with that
  key and changes no stored row, whatever the driver does. When the driver raises
  at none of its calls, the second call returns True, and the loop body of the
  collector run on such a message counts it under \<open>saved\<close> and leaves \<open>errors\<close> as
  it was.
\<close>

theorem save_message_idempotent:
  assumes "unique_keys d"
    and "save_message s d f1 cid mid pub1 txt1 vws1 = (Returned True, d1)"
    and "save_message s d1 f2 cid mid pub2 txt2 vws2 = (r2, d2)"
  shows "length (rows_with_key d2 cid mid) = 1 \<and>
         posts (server d2) = posts (server d1) \<and>
         (\<not> connect_fails f2 \<and> \<not> execute_fails f2 \<and> \<not> commit_fails f2 \<longrightarrow>
            r2 = Returned True \<and>
            (\<forall>c channel entity_id m.
               db c = d1 \<and> str_int entity_id = cid \<and> msg_id m = mid \<and>
               msg_date m = pub2 \<and> msg_text m = txt2 \<and> msg_views m = vws2 \<longrightarrow>
               (\<exists>c'. save_one s c channel entity_id m f2 = (Returned (), c') \<and>
                     db c' = d2 \<and>
                     map_of (collection_stats c') channel =
                       map_option (\<lambda>st. st\<lparr>saved := saved st + 1\<rparr>)
                         (map_of (collection_stats c) channel))))"
proof -
  from save_message_True [OF assms(2)] assms(1)
  have t: "conflicts (posts (server d1)) cid mid" "catalog (server d1) = catalog (server d)"
    "telegram_posts \<in> set (catalog (server d))"
    "telegram_posts_channel_message_idx \<in> set (catalog (server d))"
    "in_use d < maxconn" "length (rows_with_key d1 cid mid) = 1"
    by simp_all
  note one = t(6)
  have same: "posts (server d2) = posts (server d1)"
    using assms(3)
  proof (cases rule: save_message_cases)
    case no_conn
    then show ?thesis by simp
  next
    case (failed d1' d2' es)
    then show ?thesis
      by (auto simp: save_failed_def split: if_splits)
  next
    case (ok d1' result pending)
    from insert_post_Returned(3) [OF ok(5) t(1)] ok(6) show ?thesis by simp
  qed
  have ret: "r2 = Returned True"
    if nf: "\<not> connect_fails f2 \<and> \<not> execute_fails f2 \<and> \<not> commit_fails f2"
  proof -
    have "in_use d1 < maxconn"
      using t(5) save_message_in_use [OF assms(2)] by simp
    with nf t(2,3,4) assms(3) show ?thesis
      by (intro save_message_no_fault [of f2 d1 s cid mid pub2 txt2 vws2 r2 d2]) simp_all
  qed
  have coll: "\<exists>c'. save_one s c channel entity_id m f2 = (Returned (), c') \<and> db c' = d2 \<and>
                map_of (collection_stats c') channel =
                  map_option (\<lambda>st. st\<lparr>saved := saved st + 1\<rparr>)
                    (map_of (collection_stats c) channel)"
    if nf: "\<not> connect_fails f2 \<and> \<not> execute_fails f2 \<and> \<not> commit_fails f2"
      and c: "db c = d1 \<and> str_int entity_id = cid \<and> msg_id m = mid \<and>
              msg_date m = pub2 \<and> msg_text m = txt2 \<and> msg_views m = vws2"
    for c channel entity_id m
  proof -
    from assms(3) ret [OF nf] c
    have "save_one s c channel entity_id m f2 = (Returned (), count_saved channel (c\<lparr>db := d2\<rparr>))"
      by (simp add: save_one_def)
    then show ?thesis
      by (simp add: count_saved_def map_of_dict_modify)
  qed
  from one same ret coll show ?thesis
    by (simp add: rows_with_key_def)
qed

lemma str_int_7: "str_int 7 = ''7''"
  by (simp add: str_int_def str_nat.simps digit_char_def)

theorem save_message_idempotent_witness:
  "unique_keys (Database_init ex_settings ex_ready_server) \<and>
   fst (save_message ex_settings (Database_init ex_settings ex_ready_server)
          no_fault ''7'' 1 0 None None) = Returned True \<and>
   fst (save_message ex_settings
          (snd (save_message ex_settings (Database_init ex_settings ex_ready_server)
                  no_fault ''7'' 1 0 None None))
          no_fault ''7'' 1 99 (Some ''edited'') (Some 5)) = Returned True \<and>
   length (rows_with_key
     (snd (save_message ex_settings
          (snd (save_message ex_settings (Database_init ex_settings ex_ready_server)
                  no_fault ''7'' 1 0 None None))
          no_fault ''7'' 1 99 (Some ''edited'') (Some 5))) ''7'' 1) = 1 \<and>
   map_of (collection_stats (snd (save_one ex_settings
       \<lparr>db = snd (save_message ex_settings (Database_init ex_settings ex_ready_server)
                  no_fault ''7'' 1 0 None None),
        collection_stats = [(''@alpha'', \<lparr>processed = 1, saved = 0, errors = 0\<rparr>)],
        trace = []\<rparr>
       ''@alpha'' 7
       \<lparr>msg_id = 1, msg_date = 99, msg_text = Some ''edited'', msg_views = Some 5\<rparr>
       no_fault))) ''@alpha'' = Some \<lparr>processed = 1, saved = 1, errors = 0\<rparr>"
proof -
  define d where "d = Database_init ex_settings ex_ready_server"
  define d1 where "d1 = snd (save_message ex_settings d no_fault ''7'' 1 0 None None)"
  define out where "out = save_message ex_settings d1 no_fault ''7'' 1 99 (Some ''edited'') (Some 5)"
  define c where "c = \<lparr>db = d1,
        collection_stats = [(''@alpha'', \<lparr>processed = 1, saved = 0, errors = 0\<rparr>)],
        trace = []\<rparr>"
  define m where "m = \<lparr>msg_id = 1, msg_date = 99, msg_text = Some ''edited'', msg_views = Some 5\<rparr>"
  have u: "unique_keys d"
    by (simp add: d_def db_eval)
  have a: "save_message ex_settings d no_fault ''7'' 1 0 None None = (Returned True, d1)"
    by (simp add: d1_def d_def db_eval)
  have b: "save_message ex_settings d1 no_fault ''7'' 1 99 (Some ''edited'') (Some 5) = (fst out, snd out)"
    by (simp add: out_def)
  have nf: "\<not> connect_fails no_fault \<and> \<not> execute_fails no_fault \<and> \<not> commit_fails no_fault"
    by (simp add: no_fault_def)
  have fa: "fst (save_message ex_settings d no_fault ''7'' 1 0 None None) = Returned True"
    by (simp add: a)
  have k: "db c = d1 \<and> str_int 7 = ''7'' \<and> msg_id m = 1 \<and>
               msg_date m = 99 \<and> msg_text m = Some ''edited'' \<and> msg_views m = Some 5"
    by (simp add: c_def m_def str_int_7)
  note th = save_message_idempotent [OF u a b]
  from th have one: "length (rows_with_key (snd out) ''7'' 1) = 1" by (rule conjunct1)
  from th nf have r2: "fst out = Returned True" by blast
  from th nf have "\<forall>c channel entity_id m.
               db c = d1 \<and> str_int entity_id = ''7'' \<and> msg_id m = 1 \<and>
               msg_date m = 99 \<and> msg_text m = Some ''edited'' \<and> msg_views m = Some 5 \<longrightarrow>
               (\<exists>c'. save_one ex_settings c channel entity_id m no_fault = (Returned (), c') \<and>
                     db c' = snd out \<and>
                     map_of (collection_stats c') channel =
                       map_option (\<lambda>st. st\<lparr>saved := saved st + 1\<rparr>)
                         (map_of (collection_stats c) channel))"
    by blast
  with k obtain c' where "save_one ex_settings c ''@alpha'' 7 m no_fault = (Returned (), c')"
    "map_of (collection_stats c') ''@alpha'' =
       map_option (\<lambda>st. st\<lparr>saved := saved st + 1\<rparr>) (map_of (collection_stats c) ''@alpha'')"
    by blast
  with one r2
  have "length (rows_with_key (snd out) ''7'' 1) = 1 \<and> fst out = Returned True \<and>
        map_of (collection_stats (snd (save_one ex_settings c ''@alpha'' 7 m no_fault))) ''@alpha''
          = map_option (\<lambda>st. st\<lparr>saved := saved st + 1\<rparr>) (map_of (collection_stats c) ''@alpha'')"
    by simp
  with u fa show ?thesis
    unfolding out_def d1_def d_def c_def m_def by simp
qed

section \<open>Properties of the channel collector\<close>

lemma save_one_cases:
  assumes "save_one s c channel eid m f = (r, c')"
  obtains
    (raised) d where "r = Raised" "c' = c\<lparr>db := d\<rparr>"
      "save_message s (db c) f (str_int eid) (msg_id m) (msg_date m) (msg_text m) (msg_views m) = (Raised, d)"
  | (saved) d where "r = Returned ()" "c' = count_saved channel (c\<lparr>db := d\<rparr>)"
      "save_message s (db c) f (str_int eid) (msg_id m) (msg_date m) (msg_text m) (msg_views m) = (Returned True, d)"
  | (error) d where "r = Returned ()" "c' = count_error channel (c\<lparr>db := d\<rparr>)"
      "save_message s (db c) f (str_int eid) (msg_id m) (msg_date m) (msg_text m) (msg_views m) = (Returned False, d)"
proof -
  obtain r0 d where sm:
    "save_message s (db c) f (str_int eid) (msg_id m) (msg_date m) (msg_text m) (msg_views m) = (r0, d)"
    by (cases "save_message s (db c) f (str_int eid) (msg_id m) (msg_date m) (msg_text m) (msg_views m)")
  show ?thesis
  proof (cases r0)
    case Raised
    with sm assms have "r = Raised" "c' = c\<lparr>db := d\<rparr>" by (simp_all add: save_one_def)
    with sm Raised show ?thesis using raised by simp
  next
    case (Returned ok)
    show ?thesis
    proof (cases ok)
      case True
      with sm assms Returned have "r = Returned ()" "c' = count_saved channel (c\<lparr>db := d\<rparr>)"
        by (simp_all add: save_one_def)
      with sm Returned True show ?thesis using saved by simp
    next
      case False
      with sm assms Returned have "r = Returned ()" "c' = count_error channel (c\<lparr>db := d\<rparr>)"
        by (simp_all add: save_one_def)
      with sm Returned False show ?thesis using error by simp
    qed
  qed
qed

lemma save_one_stats:
  assumes "save_one s c channel eid m f = (r, c')"
    and "map_of (collection_stats c) channel = Some st"
  shows "\<exists>st'. map_of (collection_stats c') channel = Some st' \<and>
           processed st' = processed st \<and> saved st \<le> saved st' \<and> errors st \<le> errors st' \<and>
           (r = Raised \<longrightarrow> st' = st) \<and>
           (r = Returned () \<longrightarrow> saved st' + errors st' = saved st + errors st + 1)"
  using assms(1)
proof (cases rule: save_one_cases)
  case (raised d)
  with assms(2) show ?thesis by simp
next
  case (saved d)
  with assms(2) show ?thesis by (simp add: count_saved_def map_of_dict_modify)
next
  case (error d)
  with assms(2) show ?thesis by (simp add: count_error_def map_of_dict_modify)
qed

lemma save_one_other:
  assumes "save_one s c channel eid m f = (r, c')" and "k \<noteq> channel"
  shows "map_of (collection_stats c') k = map_of (collection_stats c) k"
  using assms(1)
proof (cases rule: save_one_cases)
  case (raised d)
  then show ?thesis by simp
next
  case (saved d)
  with assms(2) show ?thesis by (simp add: count_saved_def map_of_dict_modify)
next
  case (error d)
  with assms(2) show ?thesis by (simp add: count_error_def map_of_dict_modify)
qed

lemma save_all_stats:
  assumes "save_all s c channel eid ms fs = (r, c')"
    and "map_of (collection_stats c) channel = Some st"
  shows "\<exists>st'. map_of (collection_stats c') channel = Some st' \<and>
           processed st' = processed st \<and> saved st \<le> saved st' \<and> errors st \<le> errors st' \<and>
           saved st' + errors st' \<le> saved st + errors st + int (length ms) \<and>
           (r = Returned () \<longrightarrow> saved st' + errors st' = saved st + errors st + int (length ms))"
  using assms
proof (induction ms arbitrary: c fs st)
  case Nil
  then show ?case by simp
next
  case (Cons m ms)
  obtain r1 c1 where s1: "save_one s c channel eid m (next_fault fs) = (r1, c1)"
    by (cases "save_one s c channel eid m (next_fault fs)")
  from save_one_stats [OF s1 Cons.prems(2)] obtain st1 where
    st1: "map_of (collection_stats c1) channel = Some st1" "processed st1 = processed st"
      "saved st \<le> saved st1" "errors st \<le> errors st1"
      "r1 = Raised \<longrightarrow> st1 = st"
      "r1 = Returned () \<longrightarrow> saved st1 + errors st1 = saved st + errors st + 1"
    by blast
  show ?case
  proof (cases r1)
    case Raised
    with Cons.prems(1) s1 have "r = Raised" "c' = c1" by simp_all
    with st1 Raised show ?thesis by simp
  next
    case (Returned u)
    with Cons.prems(1) s1 have rest: "save_all s c1 channel eid ms (tl fs) = (r, c')" by simp
    from Cons.IH [OF rest st1(1)] obtain st' where
      "map_of (collection_stats c') channel = Some st'" "processed st' = processed st1"
      "saved st1 \<le> saved st'" "errors st1 \<le> errors st'"
      "saved st' + errors st' \<le> saved st1 + errors st1 + int (length ms)"
      "r = Returned () \<longrightarrow> saved st' + errors st' = saved st1 + errors st1 + int (length ms)"
      by blast
    with st1 Returned show ?thesis by auto
  qed
qed


lemma driver_ok_next_fault: "list_all driver_ok fs \<Longrightarrow> driver_ok (next_fault fs)"
  by (cases fs) (simp_all add: next_fault_def driver_ok_def no_fault_def)

lemma driver_ok_tl: "list_all driver_ok fs \<Longrightarrow> list_all driver_ok (tl fs)"
  by (cases fs) simp_all

lemma db_count [simp]:
  "db (count_saved channel c) = db c" "db (count_error channel c) = db c"
  by (simp_all add: count_saved_def count_error_def)

lemma trace_count [simp]:
  "trace (count_saved channel c) = trace c" "trace (count_error channel c) = trace c"
  by (simp_all add: count_saved_def count_error_def)

lemma tell_simps [simp]:
  "db (tell c es) = db c" "collection_stats (tell c es) = collection_stats c"
  "trace (tell c es) = trace c @ es"
  by (simp_all add: tell_def)

lemma save_one_no_fault:
  assumes "driver_ok f" and "schema_ready (db c)" and "in_use (db c) < maxconn"
    and "save_one s c channel eid m f = (r, c')"
  shows "r = Returned () \<and> schema_ready (db c') \<and> in_use (db c') = in_use (db c) \<and>
         map_of (collection_stats c') channel =
           map_option (\<lambda>st. st\<lparr>saved := saved st + 1\<rparr>) (map_of (collection_stats c) channel)"
proof -
  obtain r0 d where sm:
    "save_message s (db c) f (str_int eid) (msg_id m) (msg_date m) (msg_text m) (msg_views m) = (r0, d)"
    by (cases "save_message s (db c) f (str_int eid) (msg_id m) (msg_date m) (msg_text m) (msg_views m)")
  from assms(1,2,3) have "r0 = Returned True"
    by (intro save_message_no_fault [OF _ _ _ _ _ _ sm]) (simp_all add: driver_ok_def schema_ready_def)
  with sm have sm': "save_message s (db c) f (str_int eid) (msg_id m) (msg_date m) (msg_text m) (msg_views m) = (Returned True, d)"
    by simp
  from save_message_True [OF sm'] assms(2) have "schema_ready d"
    by (simp add: schema_ready_def)
  moreover from save_message_in_use [OF sm'] have "in_use d = in_use (db c)" .
  moreover from sm' assms(4) have "r = Returned ()" "c' = count_saved channel (c\<lparr>db := d\<rparr>)"
    by (simp_all add: save_one_def)
  ultimately show ?thesis
    by (simp add: count_saved_def map_of_dict_modify)
qed

lemma save_all_no_fault:
  assumes "list_all driver_ok fs" and "schema_ready (db c)" and "in_use (db c) < maxconn"
    and "map_of (collection_stats c) channel = Some st"
    and "save_all s c channel eid ms fs = (r, c')"
  shows "r = Returned () \<and>
         map_of (collection_stats c') channel = Some (st\<lparr>saved := saved st + int (length ms)\<rparr>)"
  using assms
proof (induction ms arbitrary: c fs st)
  case Nil
  then show ?case by simp
next
  case (Cons m ms)
  obtain r1 c1 where s1: "save_one s c channel eid m (next_fault fs) = (r1, c1)"
    by (cases "save_one s c channel eid m (next_fault fs)")
  note one = save_one_no_fault [OF driver_ok_next_fault [OF Cons.prems(1)] Cons.prems(2,3) s1]
  from one Cons.prems(4)
  have st1: "map_of (collection_stats c1) channel = Some (st\<lparr>saved := saved st + 1\<rparr>)"
    by simp
  from one s1 Cons.prems(5) have rest: "save_all s c1 channel eid ms (tl fs) = (r, c')"
    by simp
  from one Cons.prems(3) have lt: "in_use (db c1) < maxconn" by simp
  from one have sr: "schema_ready (db c1)" by simp
  from Cons.IH [OF driver_ok_tl [OF Cons.prems(1)] sr lt st1 rest]
  show ?case by (simp add: add.assoc)
qed

lemma collect_fetched:
  assumes "collect_entity e = Inr eid" and "collect_messages e = Inr ms"
    and "save_all s
           ((tell c [Log INFO, GetEntity channel, GetMessages eid (MESSAGES_LIMIT s)])
              \<lparr>collection_stats :=
                  dict_set channel \<lparr>processed = int (length ms), saved = 0, errors = 0\<rparr>
                    (collection_stats c)\<rparr>)
           channel eid ms (save_faults e) = (r, c3)"
  shows "collect_channel_messages s c channel e =
           (if r = Raised then (False, tell c3 [Log ERROR, Log INFO])
            else (True, tell c3 [Log INFO, Log INFO]))"
  using assms
  by (cases r)
    (simp_all add: collect_channel_messages_def collect_failed_def failure_events_def tell_def)

lemma collect_fetched_stats:
  assumes "collect_entity e = Inr entity_id" and "collect_messages e = Inr messages"
    and "collect_channel_messages s c channel e = (r, c')"
  shows "\<exists>st. map_of (collection_stats c') channel = Some st \<and>
           processed st = int (length messages) \<and> stats_ok st \<and>
           (r \<longrightarrow> saved st + errors st = processed st) \<and>
           (list_all driver_ok (save_faults e) \<and> schema_ready (db c) \<and> in_use (db c) < maxconn
              \<longrightarrow> r \<and> saved st = processed st \<and> errors st = 0)"
proof -
  let ?st0 = "\<lparr>processed = int (length messages), saved = 0, errors = 0\<rparr>"
  let ?c2 = "(tell c [Log INFO, GetEntity channel, GetMessages entity_id (MESSAGES_LIMIT s)])
              \<lparr>collection_stats := dict_set channel ?st0 (collection_stats c)\<rparr>"
  obtain r3 c3 where sa: "save_all s ?c2 channel entity_id messages (save_faults e) = (r3, c3)"
    by (cases "save_all s ?c2 channel entity_id messages (save_faults e)")
  have st0: "map_of (collection_stats ?c2) channel = Some ?st0"
    by (simp add: map_of_dict_set)
  from collect_fetched [OF assms(1,2) sa] assms(3)
  have r: "r = (r3 \<noteq> Raised)" and c': "c' = tell c3 (if r3 = Raised then [Log ERROR, Log INFO] else [Log INFO, Log INFO])"
    by (simp_all split: if_splits)
  from save_all_stats [OF sa st0] obtain st where
    st: "map_of (collection_stats c3) channel = Some st" "processed st = int (length messages)"
      "0 \<le> saved st" "0 \<le> errors st" "saved st + errors st \<le> int (length messages)"
      "r3 = Returned () \<longrightarrow> saved st + errors st = int (length messages)"
    by auto
  have full: "r3 \<noteq> Raised \<longrightarrow> saved st + errors st = processed st"
    using st(2,6) by (cases r3) simp_all
  have nofault: "r \<and> saved st = processed st \<and> errors st = 0"
    if h: "list_all driver_ok (save_faults e) \<and> schema_ready (db c) \<and> in_use (db c) < maxconn"
  proof -
    from h have "schema_ready (db ?c2)" "in_use (db ?c2) < maxconn" by simp_all
    from save_all_no_fault [OF _ this st0 sa] h st(1) r show ?thesis by auto
  qed
  from st full nofault r c' show ?thesis
    by (auto simp: stats_ok_def)
qed

lemma fetched_cases:
  obtains (no_entity) err where "collect_entity e = Inl err" "\<not> fetched e"
  | (no_messages) entity_id err where "collect_entity e = Inr entity_id"
      "collect_messages e = Inl err" "\<not> fetched e"
  | (fetched) entity_id messages where "collect_entity e = Inr entity_id"
      "collect_messages e = Inr messages" "fetched e"
  by (cases "collect_entity e"; cases "collect_messages e") (auto simp: fetched_def)

lemma failure_events_props:
  "Log CRITICAL \<notin> set (failure_events err)" "filter is_fetch (failure_events err) = []"
  by (cases err; simp add: failure_events_def is_fetch_def)+

lemma tell_tell [simp]: "tell (tell c es) es' = tell c (es @ es')"
  by (simp add: tell_def)

lemma collect_no_entity:
  assumes "collect_entity e = Inl err"
  shows "collect_channel_messages s c channel e =
           (False, tell c ([Log INFO, GetEntity channel] @ failure_events err))"
  using assms by (simp add: collect_channel_messages_def collect_failed_def)

lemma collect_no_messages:
  assumes "collect_entity e = Inr entity_id" and "collect_messages e = Inl err"
  shows "collect_channel_messages s c channel e =
           (False,
            tell c ([Log INFO, GetEntity channel, GetMessages entity_id (MESSAGES_LIMIT s)] @
                    failure_events err))"
  using assms by (simp add: collect_channel_messages_def collect_failed_def)

lemma collect_not_fetched:
  assumes "\<not> fetched e"
  shows "\<exists>es. collect_channel_messages s c channel e = (False, tell c es) \<and>
           Log CRITICAL \<notin> set es \<and> length (filter is_fetch es) \<le> 1"
proof (cases e rule: fetched_cases)
  case (no_entity err)
  from collect_no_entity [OF no_entity(1)] failure_events_props [of err]
  show ?thesis
    by (intro exI [of _ "[Log INFO, GetEntity channel] @ failure_events err"])
       (simp add: is_fetch_def)
next
  case (no_messages entity_id err)
  from collect_no_messages [OF no_messages(1,2)] failure_events_props [of err]
  show ?thesis
    by (intro exI [of _ "[Log INFO, GetEntity channel, GetMessages entity_id (MESSAGES_LIMIT s)]
                          @ failure_events err"])
       (simp add: is_fetch_def)
next
  case (fetched entity_id messages)
  with assms show ?thesis by simp
qed

lemma map_fst_dict_modify [simp]: "map fst (dict_modify k g kvs) = map fst kvs"
  by (induction kvs) auto

lemma save_one_frame:
  assumes "save_one s c channel eid m f = (r, c')"
  shows "trace c' = trace c" and "map fst (collection_stats c') = map fst (collection_stats c)"
  using assms
  by (cases rule: save_one_cases; simp add: count_saved_def count_error_def)+

lemma save_all_frame:
  assumes "save_all s c channel eid ms fs = (r, c')"
  shows "trace c' = trace c \<and> map fst (collection_stats c') = map fst (collection_stats c) \<and>
         (\<forall>k. k \<noteq> channel \<longrightarrow> map_of (collection_stats c') k = map_of (collection_stats c) k)"
  using assms
proof (induction ms arbitrary: c fs)
  case Nil
  then show ?case by simp
next
  case (Cons m ms)
  obtain r1 c1 where s1: "save_one s c channel eid m (next_fault fs) = (r1, c1)"
    by (cases "save_one s c channel eid m (next_fault fs)")
  note f1 = save_one_frame [OF s1] save_one_other [OF s1]
  show ?case
  proof (cases r1)
    case Raised
    with Cons.prems s1 have "c' = c1" by simp
    with f1 show ?thesis by simp
  next
    case (Returned u)
    with Cons.prems s1 have "save_all s c1 channel eid ms (tl fs) = (r, c')" by simp
    from Cons.IH [OF this] f1 show ?thesis by simp
  qed
qed

lemma map_fst_dict_set:
  "map fst (dict_set k v kvs) =
     (if k \<in> set (map fst kvs) then map fst kvs else map fst kvs @ [k])"
  by (induction kvs) (force simp: image_iff)+

lemma set_fst_dict_set: "set (map fst (dict_set k v kvs)) = insert k (set (map fst kvs))"
  by (auto simp: map_fst_dict_set)

lemma distinct_dict_set:
  "distinct (map fst kvs) \<Longrightarrow> distinct (map fst (dict_set k v kvs))"
  by (simp add: map_fst_dict_set)

lemma save_one_trace:
  "save_one s (c\<lparr>trace := t\<rparr>) channel eid m f =
     (case save_one s c channel eid m f of (r, c') \<Rightarrow> (r, c'\<lparr>trace := t\<rparr>))"
  by (simp add: save_one_def count_saved_def count_error_def
      split: prod.splits outcome.splits)

lemma save_all_trace:
  "save_all s (c\<lparr>trace := t\<rparr>) channel eid ms fs =
     (case save_all s c channel eid ms fs of (r, c') \<Rightarrow> (r, c'\<lparr>trace := t\<rparr>))"
proof (induction ms arbitrary: c fs)
  case Nil
  then show ?case by simp
next
  case (Cons m ms)
  show ?case
    by (simp add: save_one_trace Cons.IH split: prod.splits outcome.splits)
qed

lemma collect_fetched_result:
  assumes "collect_entity e = Inr eid" and "collect_messages e = Inr ms"
  shows "\<exists>r3 c3.
     save_all s
       (c\<lparr>collection_stats :=
            dict_set channel \<lparr>processed = int (length ms), saved = 0, errors = 0\<rparr>
              (collection_stats c)\<rparr>)
       channel eid ms (save_faults e) = (r3, c3) \<and>
     fst (collect_channel_messages s c channel e) = (r3 \<noteq> Raised) \<and>
     db (snd (collect_channel_messages s c channel e)) = db c3 \<and>
     collection_stats (snd (collect_channel_messages s c channel e)) = collection_stats c3 \<and>
     trace (snd (collect_channel_messages s c channel e)) =
       trace c @ [Log INFO, GetEntity channel, GetMessages eid (MESSAGES_LIMIT s)] @
         (if r3 = Raised then [Log ERROR, Log INFO] else [Log INFO, Log INFO])"
proof -
  let ?st0 = "\<lparr>processed = int (length ms), saved = 0, errors = 0\<rparr>"
  let ?c = "c\<lparr>collection_stats := dict_set channel ?st0 (collection_stats c)\<rparr>"
  let ?t = "trace c @ [Log INFO, GetEntity channel, GetMessages eid (MESSAGES_LIMIT s)]"
  obtain r3 c3 where sa: "save_all s ?c channel eid ms (save_faults e) = (r3, c3)"
    by (cases "save_all s ?c channel eid ms (save_faults e)")
  have c2: "(tell c [Log INFO, GetEntity channel, GetMessages eid (MESSAGES_LIMIT s)])
              \<lparr>collection_stats := dict_set channel ?st0 (collection_stats c)\<rparr>
            = ?c\<lparr>trace := ?t\<rparr>"
    by (simp add: tell_def)
  have "save_all s (?c\<lparr>trace := ?t\<rparr>) channel eid ms (save_faults e) = (r3, c3\<lparr>trace := ?t\<rparr>)"
    using sa by (simp add: save_all_trace)
  then have "save_all s
           ((tell c [Log INFO, GetEntity channel, GetMessages eid (MESSAGES_LIMIT s)])
              \<lparr>collection_stats := dict_set channel ?st0 (collection_stats c)\<rparr>)
           channel eid ms (save_faults e) = (r3, c3\<lparr>trace := ?t\<rparr>)"
    by (simp only: c2)
  from collect_fetched [OF assms this] sa show ?thesis
    by (simp add: tell_def)
qed

lemma collect_frame:
  assumes "db c0 = db c" and "collection_stats c0 = collection_stats c"
  shows "fst (collect_channel_messages s c0 channel e) = fst (collect_channel_messages s c channel e) \<and>
         db (snd (collect_channel_messages s c0 channel e)) =
           db (snd (collect_channel_messages s c channel e)) \<and>
         collection_stats (snd (collect_channel_messages s c0 channel e)) =
           collection_stats (snd (collect_channel_messages s c channel e))"
proof (cases e rule: fetched_cases)
  case (no_entity err)
  with assms show ?thesis by (simp add: collect_no_entity)
next
  case (no_messages entity_id err)
  with assms show ?thesis by (simp add: collect_no_messages)
next
  case (fetched eid ms)
  have eq: "c0\<lparr>collection_stats := x\<rparr> = (c\<lparr>collection_stats := x\<rparr>)\<lparr>trace := trace c0\<rparr>" for x
    using assms by simp
  from collect_fetched_result [OF fetched(1,2), where s = s and c = c and channel = channel]
    collect_fetched_result [OF fetched(1,2), where s = s and c = c0 and channel = channel]
  show ?thesis
    by (auto simp: assms(2) eq save_all_trace split: prod.splits)
qed

lemma collect_trace:
  "\<exists>es. trace (snd (collect_channel_messages s c channel e)) = trace c @ es \<and>
        Log CRITICAL \<notin> set es \<and> length (filter is_fetch es) \<le> 1"
proof (cases "fetched e")
  case False
  from collect_not_fetched [OF False, of s c channel] show ?thesis by auto
next
  case True
  then obtain eid ms where e: "collect_entity e = Inr eid" "collect_messages e = Inr ms"
    by (cases e rule: fetched_cases) simp_all
  from collect_fetched_result [OF e, where s = s and c = c and channel = channel] show ?thesis
    by (auto simp: is_fetch_def)
qed

lemma collect_stats_not_fetched:
  assumes "\<not> fetched e"
  shows "fst (collect_channel_messages s c channel e) = False \<and>
         db (snd (collect_channel_messages s c channel e)) = db c \<and>
         collection_stats (snd (collect_channel_messages s c channel e)) = collection_stats c"
  using collect_not_fetched [OF assms, of s c channel] by auto

lemma collect_stats_fetched:
  assumes "fetched e"
  shows "map fst (collection_stats (snd (collect_channel_messages s c channel e))) =
           (if channel \<in> set (map fst (collection_stats c)) then map fst (collection_stats c)
            else map fst (collection_stats c) @ [channel]) \<and>
         (\<forall>k. k \<noteq> channel \<longrightarrow>
            map_of (collection_stats (snd (collect_channel_messages s c channel e))) k =
            map_of (collection_stats c) k) \<and>
         (\<exists>st. map_of (collection_stats (snd (collect_channel_messages s c channel e))) channel
                 = Some st \<and> stats_ok st)"
proof -
  from assms obtain eid ms where e: "collect_entity e = Inr eid" "collect_messages e = Inr ms"
    by (cases e rule: fetched_cases) simp_all
  let ?st0 = "\<lparr>processed = int (length ms), saved = 0, errors = 0\<rparr>"
  let ?c = "c\<lparr>collection_stats := dict_set channel ?st0 (collection_stats c)\<rparr>"
  from collect_fetched_result [OF e, where s = s and c = c and channel = channel]
  obtain r3 c3 where sa: "save_all s ?c channel eid ms (save_faults e) = (r3, c3)"
    and cs: "collection_stats (snd (collect_channel_messages s c channel e)) = collection_stats c3"
    by blast
  have st0: "map_of (collection_stats ?c) channel = Some ?st0"
    by (simp add: map_of_dict_set)
  from save_all_stats [OF sa st0] obtain st where
    "map_of (collection_stats c3) channel = Some st" "stats_ok st"
    by (auto simp: stats_ok_def)
  with save_all_frame [OF sa] cs show ?thesis
    by (simp add: map_fst_dict_set map_of_dict_set)
qed

lemma run_tasks_effect:
  assumes "run_tasks s c ts = (rs, c')"
  shows "length rs = length ts \<and>
    (\<exists>es. trace c' = trace c @ es \<and> Log CRITICAL \<notin> set es \<and>
          length (filter is_fetch es) \<le> length ts) \<and>
    set (map fst (collection_stats c')) =
      set (map fst (collection_stats c)) \<union> fst ` {t \<in> set ts. fetched (snd t)} \<and>
    (distinct (map fst (collection_stats c)) \<longrightarrow> distinct (map fst (collection_stats c'))) \<and>
    ((\<forall>k st. map_of (collection_stats c) k = Some st \<longrightarrow> stats_ok st) \<longrightarrow>
     (\<forall>k st. map_of (collection_stats c') k = Some st \<longrightarrow> stats_ok st))"
  using assms
proof (induction ts arbitrary: c rs c')
  case Nil
  then show ?case by simp
next
  case (Cons t ts)
  obtain channel e where t: "t = (channel, e)" by (cases t)
  define c1 where "c1 = snd (collect_channel_messages s c channel e)"
  obtain rs1 c2 where rest: "run_tasks s c1 ts = (rs1, c2)"
    by (cases "run_tasks s c1 ts")
  from Cons.prems t rest have rs: "rs = fst (collect_channel_messages s c channel e) # rs1"
    and c': "c' = c2"
    by (simp_all add: c1_def split: prod.splits)
  note IH = Cons.IH [OF rest]
  from collect_trace [of s c channel e] obtain es1 where
    es1: "trace c1 = trace c @ es1" "Log CRITICAL \<notin> set es1" "length (filter is_fetch es1) \<le> 1"
    unfolding c1_def by blast
  from IH obtain es2 where
    es2: "trace c2 = trace c1 @ es2" "Log CRITICAL \<notin> set es2"
      "length (filter is_fetch es2) \<le> length ts"
    by blast
  have tr: "\<exists>es. trace c' = trace c @ es \<and> Log CRITICAL \<notin> set es \<and>
          length (filter is_fetch es) \<le> length (t # ts)"
    using es1 es2 c' by (intro exI [of _ "es1 @ es2"]) simp
  have keys1: "set (map fst (collection_stats c1)) =
      set (map fst (collection_stats c)) \<union> (if fetched e then {channel} else {})"
    and dist1: "distinct (map fst (collection_stats c)) \<longrightarrow> distinct (map fst (collection_stats c1))"
    and ok1: "(\<forall>k st. map_of (collection_stats c) k = Some st \<longrightarrow> stats_ok st) \<longrightarrow>
     (\<forall>k st. map_of (collection_stats c1) k = Some st \<longrightarrow> stats_ok st)"
  proof -
    show "set (map fst (collection_stats c1)) =
      set (map fst (collection_stats c)) \<union> (if fetched e then {channel} else {})"
      using collect_stats_fetched [of e s c channel] collect_stats_not_fetched [of e s c channel]
      unfolding c1_def by (cases "fetched e") auto
    show "distinct (map fst (collection_stats c)) \<longrightarrow> distinct (map fst (collection_stats c1))"
      using collect_stats_fetched [of e s c channel] collect_stats_not_fetched [of e s c channel]
      unfolding c1_def by (cases "fetched e") auto
    show "(\<forall>k st. map_of (collection_stats c) k = Some st \<longrightarrow> stats_ok st) \<longrightarrow>
     (\<forall>k st. map_of (collection_stats c1) k = Some st \<longrightarrow> stats_ok st)"
    proof (cases "fetched e")
      case True
      from collect_stats_fetched [OF True, of s c channel]
      have other: "\<And>k. k \<noteq> channel \<Longrightarrow>
            map_of (collection_stats c1) k = map_of (collection_stats c) k"
        and own: "\<exists>st. map_of (collection_stats c1) channel = Some st \<and> stats_ok st"
        unfolding c1_def by simp_all
      show ?thesis
      proof (intro impI allI)
        fix k st
        assume a: "\<forall>k st. map_of (collection_stats c) k = Some st \<longrightarrow> stats_ok st"
          and b: "map_of (collection_stats c1) k = Some st"
        show "stats_ok st"
        proof (cases "k = channel")
          case True
          with own b show ?thesis by auto
        next
          case False
          with other [OF False] a b show ?thesis by auto
        qed
      qed
    next
      case False
      from collect_stats_not_fetched [OF False, of s c channel] show ?thesis
        unfolding c1_def by simp
    qed
  qed
  have img: "fst ` {x \<in> set (t # ts). fetched (snd x)} =
          (if fetched e then {channel} else {}) \<union> fst ` {x \<in> set ts. fetched (snd x)}"
    using t by (force simp: image_iff)
  from IH have len: "length rs1 = length ts" by blast
  from IH have k2: "set (map fst (collection_stats c2)) =
      set (map fst (collection_stats c1)) \<union> fst ` {t \<in> set ts. fetched (snd t)}" by blast
  from IH have d2: "distinct (map fst (collection_stats c1)) \<longrightarrow> distinct (map fst (collection_stats c2))"
    by blast
  from IH have o2: "(\<forall>k st. map_of (collection_stats c1) k = Some st \<longrightarrow> stats_ok st) \<longrightarrow>
     (\<forall>k st. map_of (collection_stats c2) k = Some st \<longrightarrow> stats_ok st)" by blast
  have A: "length rs = length (t # ts)" using rs len by simp
  have B: "set (map fst (collection_stats c')) =
      set (map fst (collection_stats c)) \<union> fst ` {x \<in> set (t # ts). fetched (snd x)}"
    unfolding c' k2 keys1 img by blast
  have C: "distinct (map fst (collection_stats c)) \<longrightarrow> distinct (map fst (collection_stats c'))"
    using dist1 d2 c' by blast
  have D: "(\<forall>k st. map_of (collection_stats c) k = Some st \<longrightarrow> stats_ok st) \<longrightarrow>
     (\<forall>k st. map_of (collection_stats c') k = Some st \<longrightarrow> stats_ok st)"
    using ok1 o2 unfolding c' by blast
  from A tr B C D show ?case by blast
qed

lemma validate_channel_effect:
  "db (snd (validate_channel c channel e)) = db c \<and>
   collection_stats (snd (validate_channel c channel e)) = collection_stats c \<and>
   (\<exists>es. trace (snd (validate_channel c channel e)) = trace c @ es \<and>
         Log CRITICAL \<notin> set es \<and> filter is_fetch es = []) \<and>
   fst (validate_channel c channel e) = (\<not> isl (validate_entity e))"
  by (cases "validate_entity e") (simp_all add: validate_channel_def is_fetch_def)

lemma validated_tasks_effect:
  assumes "validated_tasks c l = (tasks, c1)"
  shows "db c1 = db c \<and> collection_stats c1 = collection_stats c \<and>
    (\<exists>es. trace c1 = trace c @ es \<and> Log CRITICAL \<notin> set es \<and> filter is_fetch es = []) \<and>
    length tasks \<le> length l"
  using assms
proof (induction l arbitrary: c tasks c1)
  case Nil
  then show ?case by simp
next
  case (Cons x l)
  obtain ch e where x: "x = (ch, e)" by (cases x)
  show ?case
  proof (cases "strip ch = []")
    case True
    with Cons.prems x have "validated_tasks c l = (tasks, c1)" by simp
    from Cons.IH [OF this] show ?thesis by auto
  next
    case False
    define c0 where "c0 = snd (validate_channel c (strip ch) e)"
    obtain tasks0 c2 where rest: "validated_tasks c0 l = (tasks0, c2)"
      by (cases "validated_tasks c0 l")
    from Cons.prems x False rest have c1: "c1 = c2"
      and tl: "length tasks \<le> Suc (length tasks0)"
      by (auto simp: c0_def Let_def split: prod.splits bool.splits)
    from validate_channel_effect [of c "strip ch" e] obtain es1 where
      v: "db c0 = db c" "collection_stats c0 = collection_stats c"
        "trace c0 = trace c @ es1" "Log CRITICAL \<notin> set es1" "filter is_fetch es1 = []"
      unfolding c0_def by blast
    from Cons.IH [OF rest] obtain es2 where
      r: "db c2 = db c0" "collection_stats c2 = collection_stats c0"
        "trace c2 = trace c0 @ es2" "Log CRITICAL \<notin> set es2" "filter is_fetch es2 = []"
        "length tasks0 \<le> length l"
      by blast
    have "\<exists>es. trace c1 = trace c @ es \<and> Log CRITICAL \<notin> set es \<and> filter is_fetch es = []"
      using v r c1 by (intro exI [of _ "es1 @ es2"]) simp
    with v r c1 tl show ?thesis by simp
  qed
qed

lemma nth_take_drop_mset:
  "i < length l \<Longrightarrow> mset (l ! i # take i l @ drop (Suc i) l) = mset l"
proof -
  assume "i < length l"
  then have "l = take i l @ l ! i # drop (Suc i) l" by (rule id_take_nth_drop)
  then have "mset l = mset (take i l @ l ! i # drop (Suc i) l)" by simp
  then show ?thesis by simp
qed

lemma mset_pick_order: "mset (pick_order ps xs) = mset xs"
proof (induction ps xs rule: pick_order.induct)
  case (1 ps)
  then show ?case by simp
next
  case (2 ps x xs)
  let ?i = "next_pick ps mod Suc (length xs)"
  have "?i < length (x # xs)" by simp
  from nth_take_drop_mset [OF this] 2 show ?case by simp
qed

lemmas collector_eval =
  collect_channel_messages_def collect_failed_def failure_events_def save_one_def count_saved_def
  count_error_def next_fault_def tell_def ex_alpha_def ex_beta_denied_def
  ex_beta_limited_def ex_collector_def ex_message_def

lemma ex_collected_eval:
  "schema_ready (db ex_collected)" "in_use (db ex_collected) = 0"
  "length (posts (server (db ex_collected))) = 2"
  by (simp_all add: ex_collected_def schema_ready_def collector_eval db_eval str_int_7)

section \<open>Properties of the cycle orchestrator\<close>

lemma gather_Nil [simp]: "gather s ps c [] = ([], c)"
  by (simp add: gather_def)

lemma any_true_iff: "any_true results \<longleftrightarrow> True \<in> set results"
  by (auto simp: any_true_def list_ex_iff)

lemma collect_all_channels_unfold:
  assumes "\<not> client_fails env"
    and "validated_tasks (c\<lparr>collection_stats := []\<rparr>) (configured s env) = (tasks, c1)"
    and "gather s (picks env) c1 tasks = (results, c2)"
  shows "collect_all_channels s c env =
           (Returned (True \<in> set results),
            log_collection_summary (if True \<in> set results then c2 else tell c2 [Log CRITICAL]))"
proof (cases "tasks = []")
  case True
  with assms show ?thesis
    by (simp add: collect_all_channels_def any_true_iff)
next
  case False
  with assms show ?thesis
    by (simp add: collect_all_channels_def any_true_iff Let_def)
qed

lemma gather_effect:
  assumes "gather s ps c tasks = (results, c')"
  shows "length results = length tasks \<and>
    (\<exists>es. trace c' = trace c @ es \<and> Log CRITICAL \<notin> set es \<and>
          length (filter is_fetch es) \<le> length tasks) \<and>
    set (map fst (collection_stats c')) =
      set (map fst (collection_stats c)) \<union> fst ` {t \<in> set tasks. fetched (snd t)} \<and>
    (distinct (map fst (collection_stats c)) \<longrightarrow> distinct (map fst (collection_stats c'))) \<and>
    ((\<forall>k st. map_of (collection_stats c) k = Some st \<longrightarrow> stats_ok st) \<longrightarrow>
     (\<forall>k st. map_of (collection_stats c') k = Some st \<longrightarrow> stats_ok st))"
proof -
  have l: "length (pick_order ps tasks) = length tasks"
    using mset_pick_order [of ps tasks] by (rule mset_eq_length)
  have s: "set (pick_order ps tasks) = set tasks"
    using mset_pick_order [of ps tasks] by (rule mset_eq_setD)
  from run_tasks_effect [of s c "pick_order ps tasks" results c'] assms
  show ?thesis
    unfolding gather_def l s by simp
qed

lemma cycle_flag_connected:
  assumes "\<not> client_fails env"
    and "validated_tasks (c\<lparr>collection_stats := []\<rparr>) (configured s env) = (tasks, c1)"
    and "gather s (picks env) c1 tasks = (results, c2)"
  shows "\<exists>c' es.
           collect_all_channels s c env = (Returned (True \<in> set results), c') \<and>
           length results = length tasks \<and>
           trace c' = trace c @ es \<and>
           (Log CRITICAL \<in> set es \<longleftrightarrow> True \<notin> set results) \<and>
           run_collection s c env = (Returned (), c') \<and>
           (\<forall>env'. fst (run_collection s c env') = Returned ())"
proof -
  let ?c3 = "if True \<in> set results then c2 else tell c2 [Log CRITICAL]"
  let ?c' = "log_collection_summary ?c3"
  note u = collect_all_channels_unfold [OF assms]
  from validated_tasks_effect [OF assms(2)] obtain es1 where
    es1: "trace c1 = trace c @ es1" "Log CRITICAL \<notin> set es1"
    by auto
  from gather_effect [OF assms(3)] obtain es2 where
    es2: "trace c2 = trace c1 @ es2" "Log CRITICAL \<notin> set es2" and len: "length results = length tasks"
    by auto
  let ?es = "es1 @ es2 @ (if True \<in> set results then [] else [Log CRITICAL]) @ [summary ?c3]"
  have t: "trace ?c' = trace c @ ?es"
    using es1 es2 by (simp add: log_collection_summary_def)
  have crit: "Log CRITICAL \<in> set ?es \<longleftrightarrow> True \<notin> set results"
    using es1 es2 by (simp add: summary_def)
  have rc: "run_collection s c env = (Returned (), ?c')"
    using u by (simp add: run_collection_def)
  have always: "\<forall>env'. fst (run_collection s c env') = Returned ()"
    by (simp add: run_collection_def split: prod.splits outcome.splits)
  from u len t crit rc always show ?thesis by blast
qed

lemma invocation_result_Cons:
  "invocation_result s c ((channel, e) # ts) 0 = fst (collect_channel_messages s c channel e)"
  "invocation_result s c ((channel, e) # ts) (Suc i) =
     invocation_result s (snd (collect_channel_messages s c channel e)) ts i"
  by (simp_all add: invocation_result_def)

lemma run_tasks_invocations:
  "run_tasks s c ts = (map (invocation_result s c ts) [0..<length ts], after_tasks s c ts)"
proof (induction ts arbitrary: c)
  case Nil
  then show ?case by simp
next
  case (Cons t ts)
  obtain channel e where t: "t = (channel, e)" by (cases t)
  obtain ok c1 where k: "collect_channel_messages s c channel e = (ok, c1)"
    by (cases "collect_channel_messages s c channel e")
  have u: "[0..<length (t # ts)] = 0 # map Suc [0..<length ts]"
    by (simp add: upt_conv_Cons map_Suc_upt del: upt_Suc)
  have z: "invocation_result s c (t # ts) 0 = ok"
    using t k by (simp add: invocation_result_Cons)
  have m: "map (invocation_result s c (t # ts)) (map Suc [0..<length ts])
             = map (invocation_result s c1 ts) [0..<length ts]"
    using t k by (simp add: invocation_result_Cons comp_def)
  have r: "run_tasks s c (t # ts) = (ok # fst (run_tasks s c1 ts), snd (run_tasks s c1 ts))"
    using t k by (simp split: prod.splits)
  have a: "after_tasks s c (t # ts) = after_tasks s c1 ts"
    using t k by simp
  show ?case
    unfolding r a u list.map z m by (simp add: Cons.IH [of c1])
qed

lemma gather_invocations:
  assumes "gather s ps c tasks = (results, c2)"
  shows "True \<in> set results \<longleftrightarrow>
           (\<exists>i<length tasks. invocation_result s c (pick_order ps tasks) i)"
proof -
  have l: "length (pick_order ps tasks) = length tasks"
    using mset_pick_order [of ps tasks] by (rule mset_eq_length)
  from assms have "results =
      map (invocation_result s c (pick_order ps tasks)) [0..<length (pick_order ps tasks)]"
    by (simp add: gather_def run_tasks_invocations)
  then show ?thesis by (auto simp: l)
qed

text \<open>
  C3, as amended. In a cycle in which the client connects, the success flag is
  true exactly when one of the invocations of \<^verbatim>\<open>collect_channel_messages\<close> returned
  True, where there is one invocation for each validated channel, taking effect
  in their order of completion (a rearrangement of the validated channels). The
  events of such a cycle contain a CRITICAL log line exactly when the flag is
  false, and \<^verbatim>\<open>run_collection\<close> returns normally with the state of the cycle. In
  a cycle in which the client cannot connect, the flag keeps its first value
  False, the exception leaves \<^verbatim>\<open>collect_all_channels\<close> before the CRITICAL line
  and the summary, and \<^verbatim>\<open>run_collection\<close> logs it as an error and returns
  normally. \<^verbatim>\<open>run_collection\<close> returns normally in every environment: no exception
  reaches the scheduler.
\<close>

theorem cycle_success_flag:
  "(\<not> client_fails env \<longrightarrow>
      (\<forall>tasks c1.
         validated_tasks (c\<lparr>collection_stats := []\<rparr>) (configured s env) = (tasks, c1) \<longrightarrow>
         (\<exists>c' es.
            collect_all_channels s c env = (Returned (success_flag s c env), c') \<and>
            mset (pick_order (picks env) tasks) = mset tasks \<and>
            (success_flag s c env \<longleftrightarrow>
               (\<exists>i<length tasks. invocation_result s c1 (pick_order (picks env) tasks) i)) \<and>
            trace c' = trace c @ es \<and>
            (Log CRITICAL \<in> set es \<longleftrightarrow> \<not> success_flag s c env) \<and>
            run_collection s c env = (Returned (), c')))) \<and>
   (client_fails env \<longrightarrow>
      collect_all_channels s c env = (Raised, c\<lparr>collection_stats := []\<rparr>) \<and>
      \<not> success_flag s c env \<and>
      run_collection s c env =
        (Returned (), tell (c\<lparr>collection_stats := []\<rparr>) [Log ERROR])) \<and>
   (\<forall>env'. fst (run_collection s c env') = Returned ())"
proof -
  have connected: "\<exists>c' es.
            collect_all_channels s c env = (Returned (success_flag s c env), c') \<and>
            mset (pick_order (picks env) tasks) = mset tasks \<and>
            (success_flag s c env \<longleftrightarrow>
               (\<exists>i<length tasks. invocation_result s c1 (pick_order (picks env) tasks) i)) \<and>
            trace c' = trace c @ es \<and>
            (Log CRITICAL \<in> set es \<longleftrightarrow> \<not> success_flag s c env) \<and>
            run_collection s c env = (Returned (), c')"
    if h: "\<not> client_fails env"
      and v: "validated_tasks (c\<lparr>collection_stats := []\<rparr>) (configured s env) = (tasks, c1)"
    for tasks c1
  proof -
    obtain results c2 where g: "gather s (picks env) c1 tasks = (results, c2)"
      by (cases "gather s (picks env) c1 tasks")
    from cycle_flag_connected [OF h v g] obtain c' es where
      r: "collect_all_channels s c env = (Returned (True \<in> set results), c')"
        "trace c' = trace c @ es" "Log CRITICAL \<in> set es \<longleftrightarrow> True \<notin> set results"
        "run_collection s c env = (Returned (), c')"
      by blast
    from r(1) have f: "success_flag s c env = (True \<in> set results)"
      by (simp add: success_flag_def)
    note i = gather_invocations [OF g]
    from r f i mset_pick_order [of "picks env" tasks] show ?thesis by auto
  qed
  have offline: "collect_all_channels s c env = (Raised, c\<lparr>collection_stats := []\<rparr>) \<and>
      \<not> success_flag s c env \<and>
      run_collection s c env =
        (Returned (), tell (c\<lparr>collection_stats := []\<rparr>) [Log ERROR])"
    if "client_fails env"
    using that by (simp add: collect_all_channels_def success_flag_def run_collection_def)
  have always: "\<forall>env'. fst (run_collection s c env') = Returned ()"
    by (simp add: run_collection_def split: prod.splits outcome.splits)
  from connected offline always show ?thesis by blast
qed

lemma cycle_stats:
  assumes "\<not> client_fails env"
    and "validated_tasks (c\<lparr>collection_stats := []\<rparr>) (configured s env) = (tasks, c1)"
    and "gather s (picks env) c1 tasks = (results, c2)"
  shows "\<exists>c'. collect_all_channels s c env = (Returned (True \<in> set results), c') \<and>
           collection_stats c' = collection_stats c2 \<and> db c' = db c2 \<and>
           last (trace c') =
             Summary (int (length (collection_stats c2)))
               (total processed (collection_stats c2))
               (total saved (collection_stats c2))
               (total errors (collection_stats c2))"
proof -
  let ?c3 = "if True \<in> set results then c2 else tell c2 [Log CRITICAL]"
  have "collection_stats (log_collection_summary ?c3) = collection_stats c2"
    "db (log_collection_summary ?c3) = db c2"
    "last (trace (log_collection_summary ?c3)) =
             Summary (int (length (collection_stats c2)))
               (total processed (collection_stats c2))
               (total saved (collection_stats c2))
               (total errors (collection_stats c2))"
    by (simp_all add: log_collection_summary_def summary_def)
  with collect_all_channels_unfold [OF assms] show ?thesis by simp
qed

lemma fetched_channels_set:
  "set (fetched_channels tasks) = fst ` {t \<in> set tasks. fetched (snd t)}"
  by (force simp: fetched_channels_def image_iff)

text \<open>
  C6, as amended. In a cycle in which the client connects, the channel count of
  the summary line is the number of distinct channel references among the
  validated channels whose fetch returned. These references are the keys of
  \<^verbatim>\<open>collection_stats\<close> at the end of the cycle, and there are at most as many of
  them as channels were launched. A validated channel whose collection failed
  before its statistics were recorded is not counted.
\<close>

theorem summary_channel_count:
  assumes "\<not> client_fails env"
    and "validated_tasks (c\<lparr>collection_stats := []\<rparr>) (configured s env) = (tasks, c1)"
  shows "\<exists>success c' p sv er.
           collect_all_channels s c env = (Returned success, c') \<and>
           last (trace c') = Summary (int (length (fetched_channels tasks))) p sv er \<and>
           mset (map fst (collection_stats c')) = mset (fetched_channels tasks) \<and>
           length (fetched_channels tasks) \<le> length tasks"
proof -
  obtain results c2 where g: "gather s (picks env) c1 tasks = (results, c2)"
    by (cases "gather s (picks env) c1 tasks")
  from validated_tasks_effect [OF assms(2)] have e: "collection_stats c1 = []" by simp
  from gather_effect [OF g] e
  have keys: "set (map fst (collection_stats c2)) = set (fetched_channels tasks)"
    and dist: "distinct (map fst (collection_stats c2))"
    by (simp_all add: fetched_channels_set)
  have d2: "distinct (fetched_channels tasks)" by (simp add: fetched_channels_def)
  from keys
  have perm: "mset (map fst (collection_stats c2)) = mset (fetched_channels tasks)"
    by (rule iffD1 [OF set_eq_iff_mset_eq_distinct [OF dist d2]])
  then have "length (map fst (collection_stats c2)) = length (fetched_channels tasks)"
    by (rule mset_eq_length)
  then have len: "length (collection_stats c2) = length (fetched_channels tasks)" by simp
  have "length (fetched_channels tasks) \<le> length (map fst (filter (\<lambda>(channel, e). fetched e) tasks))"
    unfolding fetched_channels_def by (rule length_remdups_leq)
  also have "\<dots> \<le> length tasks" by simp
  finally have le: "length (fetched_channels tasks) \<le> length tasks" .
  from cycle_stats [OF assms g] len le perm show ?thesis by auto
qed

lemma cycle_fetches:
  assumes "collect_all_channels s c env = (r, c')"
  shows "\<exists>es. trace c' = trace c @ es \<and>
           length (filter is_fetch es) \<le> length (TELEGRAM_CHANNELS s)"
proof (cases "client_fails env")
  case True
  with assms have "c' = c\<lparr>collection_stats := []\<rparr>"
    by (simp add: collect_all_channels_def)
  then show ?thesis by simp
next
  case False
  obtain tasks c1 where v: "validated_tasks (c\<lparr>collection_stats := []\<rparr>) (configured s env) = (tasks, c1)"
    by (cases "validated_tasks (c\<lparr>collection_stats := []\<rparr>) (configured s env)")
  obtain results c2 where g: "gather s (picks env) c1 tasks = (results, c2)"
    by (cases "gather s (picks env) c1 tasks")
  let ?c3 = "if True \<in> set results then c2 else tell c2 [Log CRITICAL]"
  from collect_all_channels_unfold [OF False v g] assms
  have c': "c' = log_collection_summary ?c3" by simp
  from validated_tasks_effect [OF v] obtain es1 where
    es1: "trace c1 = trace c @ es1" "filter is_fetch es1 = []"
    and lt: "length tasks \<le> length (configured s env)"
    by auto
  from gather_effect [OF g] obtain es2 where
    es2: "trace c2 = trace c1 @ es2" "length (filter is_fetch es2) \<le> length tasks"
    by auto
  let ?es = "es1 @ es2 @ (if True \<in> set results then [] else [Log CRITICAL]) @ [summary ?c3]"
  have "trace c' = trace c @ ?es"
    using es1 es2 c' by (simp add: log_collection_summary_def)
  moreover have "length (filter is_fetch ?es) \<le> length (TELEGRAM_CHANNELS s)"
    using es1 es2 lt by (simp add: summary_def is_fetch_def configured_def)
  ultimately show ?thesis by blast
qed

lemma access_denied_not_fetched: "access_denied e \<Longrightarrow> \<not> fetched e"
  by (auto simp: access_denied_def fetch_fails_def fetched_def)

lemma mset_two:
  assumes "mset l = mset [a, b]"
  shows "l = [a, b] \<or> l = [b, a]"
proof -
  from assms have "length l = 2" using mset_eq_length by fastforce
  then obtain x y where l: "l = [x, y]"
    by (cases l; cases "tl l") auto
  with assms have "{#x, y#} = {#a, b#}" by simp
  then have "(x = a \<and> y = b) \<or> (x = b \<and> y = a)"
    by (auto simp: add_eq_conv_ex)
  with l show ?thesis by auto
qed

lemma total_single: "total field [(k, st)] = field st"
  by (simp add: total_def)

lemma run_two_tasks:
  assumes "\<not> fetched ea"
    and "db c1 = db c0" and "collection_stats c1 = collection_stats c0"
    and "collect_channel_messages s c0 B eb = (True, cB)"
    and "order = [(A, ea), (B, eb)] \<or> order = [(B, eb), (A, ea)]"
    and "run_tasks s c1 order = (results, c2)"
  shows "True \<in> set results \<and> length results = 2 \<and>
         db c2 = db cB \<and> collection_stats c2 = collection_stats cB"
proof -
  from assms(5) show ?thesis
  proof
    assume o: "order = [(A, ea), (B, eb)]"
    define cA where "cA = snd (collect_channel_messages s c1 A ea)"
    from collect_stats_not_fetched [OF assms(1), of s c1 A]
    have a: "fst (collect_channel_messages s c1 A ea) = False" "db cA = db c1"
      "collection_stats cA = collection_stats c1"
      unfolding cA_def by simp_all
    from collect_frame [of cA c0 s B eb] a assms(2,3,4)
    have b: "fst (collect_channel_messages s cA B eb) = True"
      "db (snd (collect_channel_messages s cA B eb)) = db cB"
      "collection_stats (snd (collect_channel_messages s cA B eb)) = collection_stats cB"
      by simp_all
    from assms(6) o have "results = [fst (collect_channel_messages s c1 A ea),
                                     fst (collect_channel_messages s cA B eb)]"
      and "c2 = snd (collect_channel_messages s cA B eb)"
      by (simp_all add: cA_def split: prod.splits)
    with a b show ?thesis by simp
  next
    assume o: "order = [(B, eb), (A, ea)]"
    define cB' where "cB' = snd (collect_channel_messages s c1 B eb)"
    from collect_frame [of c1 c0 s B eb] assms(2,3,4)
    have b: "fst (collect_channel_messages s c1 B eb) = True" "db cB' = db cB"
      "collection_stats cB' = collection_stats cB"
      unfolding cB'_def by simp_all
    from collect_stats_not_fetched [OF assms(1), of s cB' A]
    have a: "db (snd (collect_channel_messages s cB' A ea)) = db cB'"
      "collection_stats (snd (collect_channel_messages s cB' A ea)) = collection_stats cB'"
      by simp_all
    from assms(6) o have "results = [fst (collect_channel_messages s c1 B eb),
                                     fst (collect_channel_messages s cB' A ea)]"
      and "c2 = snd (collect_channel_messages s cB' A ea)"
      by (simp_all add: cB'_def split: prod.splits)
    with a b show ?thesis by simp
  qed
qed

text \<open>
  C2. Let the client connect and let exactly the channels \<open>A\<close> and \<open>B\<close> pass
  validation, in either order. Let the fetch of \<open>A\<close> be refused (private channel
  or admin rights required), and let the collection of \<open>B\<close> on the database of
  the cycle return True after fetching \<open>messages\<close>, leaving the state \<open>cB\<close>. Then
  both tasks are awaited (two results), the success flag is true, the database
  and the statistics at the end of the cycle are those of \<open>cB\<close>, the statistics
  hold the one entry of \<open>B\<close> with \<open>processed\<close> the number of fetched messages and
  \<open>saved + errors = processed\<close>, and the summary line reports one channel and the
  counts of that entry: \<open>A\<close> contributes nothing.
\<close>

theorem partial_failure_isolation:
  assumes "\<not> client_fails env"
    and "validated_tasks (c\<lparr>collection_stats := []\<rparr>) (configured s env) = (tasks, c1)"
    and "tasks = [(A, ea), (B, eb)] \<or> tasks = [(B, eb), (A, ea)]"
    and "access_denied ea"
    and "collect_messages eb = Inr messages"
    and "collect_channel_messages s (c\<lparr>collection_stats := []\<rparr>) B eb = (True, cB)"
  shows "\<exists>c' st.
           collect_all_channels s c env = (Returned True, c') \<and>
           length (fst (gather s (picks env) c1 tasks)) = 2 \<and>
           db c' = db cB \<and>
           collection_stats c' = [(B, st)] \<and>
           collection_stats cB = [(B, st)] \<and>
           processed st = int (length messages) \<and>
           saved st + errors st = processed st \<and>
           last (trace c') = Summary 1 (processed st) (saved st) (errors st)"
proof -
  let ?c0 = "c\<lparr>collection_stats := []\<rparr>"
  obtain results c2 where g: "gather s (picks env) c1 tasks = (results, c2)"
    by (cases "gather s (picks env) c1 tasks")
  from validated_tasks_effect [OF assms(2)]
  have v: "db c1 = db ?c0" "collection_stats c1 = collection_stats ?c0" by simp_all
  have nf: "\<not> fetched ea" using assms(4) by (rule access_denied_not_fetched)
  have fb: "fetched eb"
    using collect_stats_not_fetched [of eb s ?c0 B] assms(6) by auto
  then obtain idb where eb: "collect_entity eb = Inr idb"
    by (cases eb rule: fetched_cases) simp_all
  have order: "pick_order (picks env) tasks = [(A, ea), (B, eb)] \<or>
               pick_order (picks env) tasks = [(B, eb), (A, ea)]"
  proof -
    from assms(3) have "mset tasks = mset [(A, ea), (B, eb)]" by auto
    then have "mset (pick_order (picks env) tasks) = mset [(A, ea), (B, eb)]"
      by (simp only: mset_pick_order)
    then show ?thesis by (rule mset_two)
  qed
  from g have rt: "run_tasks s c1 (pick_order (picks env) tasks) = (results, c2)"
    by (simp add: gather_def)
  from run_two_tasks [OF nf v assms(6) order rt]
  have r: "True \<in> set results" "length results = 2" "db c2 = db cB"
    "collection_stats c2 = collection_stats cB"
    by simp_all
  from collect_fetched_stats [OF eb assms(5,6)] obtain st where
    st: "map_of (collection_stats cB) B = Some st" "processed st = int (length messages)"
      "saved st + errors st = processed st"
    by auto
  from collect_stats_fetched [OF fb, of s ?c0 B] assms(6)
  have "map fst (collection_stats cB) = [B]" by simp
  with st(1) have single: "collection_stats cB = [(B, st)]"
    by (cases "collection_stats cB") auto
  from cycle_stats [OF assms(1,2) g] r single g st show ?thesis
    by (auto simp: total_single)
qed

lemmas cycle_eval =
  collect_all_channels_def configured_def validate_channel_def gather_def
  next_pick_def any_true_def log_collection_summary_def summary_def total_def
  strip_def isspace_def ex_cycle_def ex_cycle_refused_def run_collection_def Let_def

text \<open>
  C5. When \<^verbatim>\<open>get_messages\<close> raises \<^verbatim>\<open>FloodWaitError\<close> with \<open>seconds\<close>, the invocation
  of \<^verbatim>\<open>collect_channel_messages\<close> makes one call of \<^verbatim>\<open>get_messages\<close>, then logs a
  warning, sleeps for \<open>seconds\<close> and returns False after the closing log line:
  no call of the client follows the sleep. The database and the statistics are
  left as they were, so nothing is processed for the channel. In a whole cycle
  there are at most as many calls of \<^verbatim>\<open>get_messages\<close> as configured channels, so
  no fetch is repeated before the next cycle.
\<close>

theorem collect_rate_limited:
  assumes "fetch_fails e (FloodWaitError seconds)"
  shows "(\<exists>entity_id.
            collect_channel_messages s c channel e =
              (False,
               tell c [Log INFO, GetEntity channel, GetMessages entity_id (MESSAGES_LIMIT s),
                       Log WARNING, Sleep seconds, Log INFO])) \<and>
         db (snd (collect_channel_messages s c channel e)) = db c \<and>
         collection_stats (snd (collect_channel_messages s c channel e)) = collection_stats c \<and>
         (\<forall>env r c'. collect_all_channels s c env = (r, c') \<longrightarrow>
            (\<exists>es. trace c' = trace c @ es \<and>
                  length (filter is_fetch es) \<le> length (TELEGRAM_CHANNELS s)))"
proof -
  from assms obtain entity_id where e: "collect_entity e = Inr entity_id"
    "collect_messages e = Inl (FloodWaitError seconds)"
    by (cases "collect_entity e") (auto simp: fetch_fails_def)
  have eq: "collect_channel_messages s c channel e =
             (False,
              tell c [Log INFO, GetEntity channel, GetMessages entity_id (MESSAGES_LIMIT s),
                      Log WARNING, Sleep seconds, Log INFO])"
    using collect_no_messages [OF e] by (simp add: failure_events_def)
  then have 1: "\<exists>entity_id.
            collect_channel_messages s c channel e =
              (False,
               tell c [Log INFO, GetEntity channel, GetMessages entity_id (MESSAGES_LIMIT s),
                       Log WARNING, Sleep seconds, Log INFO])"
    by (rule exI)
  from eq have 2: "db (snd (collect_channel_messages s c channel e)) = db c"
    and 3: "collection_stats (snd (collect_channel_messages s c channel e)) = collection_stats c"
    by simp_all
  have 4: "\<forall>env r c'. collect_all_channels s c env = (r, c') \<longrightarrow>
            (\<exists>es. trace c' = trace c @ es \<and>
                  length (filter is_fetch es) \<le> length (TELEGRAM_CHANNELS s))"
    using cycle_fetches by blast
  from 1 2 3 4 show ?thesis by blast
qed

theorem collect_rate_limited_witness:
  "fetch_fails ex_beta_limited (FloodWaitError 30) \<and>
   fst (collect_channel_messages ex_settings ex_collector ''@beta'' ex_beta_limited) = False \<and>
   db (snd (collect_channel_messages ex_settings ex_collector ''@beta'' ex_beta_limited))
     = db ex_collector \<and>
   collection_stats (snd (collect_channel_messages ex_settings ex_collector ''@beta'' ex_beta_limited))
     = [] \<and>
   trace (snd (collect_channel_messages ex_settings ex_collector ''@beta'' ex_beta_limited)) =
     [Log INFO, GetEntity ''@beta'', GetMessages 8 50, Log WARNING, Sleep 30, Log INFO]"
proof -
  have h: "fetch_fails ex_beta_limited (FloodWaitError 30)"
    by (simp add: fetch_fails_def ex_beta_limited_def)
  note th = collect_rate_limited [OF h, of ex_settings ex_collector "''@beta''"]
  from th have r: "fst (collect_channel_messages ex_settings ex_collector ''@beta'' ex_beta_limited) = False"
    by auto
  from th have d: "db (snd (collect_channel_messages ex_settings ex_collector ''@beta'' ex_beta_limited))
     = db ex_collector" by blast
  from th have "collection_stats (snd (collect_channel_messages ex_settings ex_collector ''@beta'' ex_beta_limited))
     = collection_stats ex_collector" by blast
  then have st: "collection_stats (snd (collect_channel_messages ex_settings ex_collector ''@beta'' ex_beta_limited))
     = []" by (simp add: ex_collector_def)
  have tr: "trace (snd (collect_channel_messages ex_settings ex_collector ''@beta'' ex_beta_limited)) =
     [Log INFO, GetEntity ''@beta'', GetMessages 8 50, Log WARNING, Sleep 30, Log INFO]"
    by (simp add: collector_eval ex_settings_def)
  from h r d st tr show ?thesis by simp
qed

lemma ex_cycle_tasks:
  "validated_tasks (ex_collector\<lparr>collection_stats := []\<rparr>) (configured ex_settings ex_cycle) =
     ([(''@alpha'', ex_alpha), (''@beta'', ex_beta_denied)],
      tell ex_collector [GetEntity ''@alpha'', Log INFO, GetEntity ''@beta'', Log INFO])"
  by (simp add: cycle_eval collector_eval ex_settings_def)

lemma ex_cycle_refused_tasks:
  "validated_tasks (ex_collector\<lparr>collection_stats := []\<rparr>)
     (configured ex_settings ex_cycle_refused) =
     ([(''@alpha'', ex_beta_denied), (''@beta'', ex_beta_denied)],
      tell ex_collector [GetEntity ''@alpha'', Log INFO, GetEntity ''@beta'', Log INFO])"
  by (simp add: cycle_eval collector_eval ex_settings_def)

text \<open>
  C6 as stated fails: in the cycle \<open>ex_cycle\<close> two channels pass validation and
  are launched, the fetch of the second is refused, and the summary line reports
  one channel.
\<close>

theorem summary_channel_count_counterexample:
  "length (fst (validated_tasks (ex_collector\<lparr>collection_stats := []\<rparr>)
     (configured ex_settings ex_cycle))) = 2 \<and>
   last (trace (snd (collect_all_channels ex_settings ex_collector ex_cycle))) = Summary 1 2 2 0"
  by (simp add: ex_cycle_tasks) code_simp

theorem summary_channel_count_witness:
  "\<not> client_fails ex_cycle \<and>
   fetched_channels [(''@alpha'', ex_alpha), (''@beta'', ex_beta_denied)] = [''@alpha''] \<and>
   (\<exists>p sv er. last (trace (snd (collect_all_channels ex_settings ex_collector ex_cycle))) =
      Summary 1 p sv er) \<and>
   mset (map fst (collection_stats (snd (collect_all_channels ex_settings ex_collector ex_cycle))))
     = mset [''@alpha'']"
proof -
  have h: "\<not> client_fails ex_cycle" by (simp add: ex_cycle_def)
  have fc: "fetched_channels [(''@alpha'', ex_alpha), (''@beta'', ex_beta_denied)] = [''@alpha'']"
    by (simp add: fetched_channels_def fetched_def ex_alpha_def ex_beta_denied_def)
  from summary_channel_count [OF h ex_cycle_tasks] fc
  obtain success c' p sv er where
    "collect_all_channels ex_settings ex_collector ex_cycle = (Returned success, c')"
    "last (trace c') = Summary 1 p sv er"
    "mset (map fst (collection_stats c')) = mset [''@alpha'']"
    by auto
  with h fc show ?thesis by auto
qed

text \<open>
  C3 as stated fails: in the cycle \<open>ex_cycle_offline\<close> the client cannot connect;
  the flag is false, and the only event of the run is the ERROR line of
  \<^verbatim>\<open>run_collection\<close>: no CRITICAL line is logged.
\<close>

theorem cycle_success_flag_counterexample:
  "client_fails ex_cycle_offline \<and>
   \<not> success_flag ex_settings ex_collector ex_cycle_offline \<and>
   trace (snd (run_collection ex_settings ex_collector ex_cycle_offline)) = [Log ERROR] \<and>
   Log CRITICAL \<notin> set (trace (snd (run_collection ex_settings ex_collector ex_cycle_offline)))"
  by code_simp

theorem cycle_success_flag_witness:
  "\<not> client_fails ex_cycle_refused \<and>
   \<not> success_flag ex_settings ex_collector ex_cycle_refused \<and>
   Log CRITICAL \<in> set (trace (snd (collect_all_channels ex_settings ex_collector ex_cycle_refused))) \<and>
   \<not> client_fails ex_cycle \<and>
   success_flag ex_settings ex_collector ex_cycle \<and>
   Log CRITICAL \<notin> set (trace (snd (collect_all_channels ex_settings ex_collector ex_cycle))) \<and>
   invocation_result ex_settings
     (tell ex_collector [GetEntity ''@alpha'', Log INFO, GetEntity ''@beta'', Log INFO])
     [(''@beta'', ex_beta_denied), (''@alpha'', ex_alpha)] 1 \<and>
   client_fails ex_cycle_offline \<and>
   run_collection ex_settings ex_collector ex_cycle_offline =
     (Returned (), tell (ex_collector\<lparr>collection_stats := []\<rparr>) [Log ERROR])"
proof -
  have t0: "trace ex_collector = []" by (simp add: ex_collector_def)
  have h1: "\<not> client_fails ex_cycle_refused" by (simp add: ex_cycle_refused_def)
  have f1: "\<not> success_flag ex_settings ex_collector ex_cycle_refused" by code_simp
  note th1 = cycle_success_flag [of ex_cycle_refused ex_collector ex_settings]
  from th1 h1 ex_cycle_refused_tasks obtain c1' es1 where
    "collect_all_channels ex_settings ex_collector ex_cycle_refused
       = (Returned (success_flag ex_settings ex_collector ex_cycle_refused), c1')"
    "trace c1' = trace ex_collector @ es1"
    "Log CRITICAL \<in> set es1 \<longleftrightarrow> \<not> success_flag ex_settings ex_collector ex_cycle_refused"
    by blast
  with f1 t0 have a: "Log CRITICAL \<in>
      set (trace (snd (collect_all_channels ex_settings ex_collector ex_cycle_refused)))"
    by simp
  have h2: "\<not> client_fails ex_cycle" by (simp add: ex_cycle_def)
  have f2: "success_flag ex_settings ex_collector ex_cycle" by code_simp
  have o: "pick_order (picks ex_cycle) [(''@alpha'', ex_alpha), (''@beta'', ex_beta_denied)]
             = [(''@beta'', ex_beta_denied), (''@alpha'', ex_alpha)]"
    by (simp add: ex_cycle_def next_pick_def)
  note th2 = cycle_success_flag [of ex_cycle ex_collector ex_settings]
  from th2 h2 ex_cycle_tasks obtain c2' es2 where
    r2: "collect_all_channels ex_settings ex_collector ex_cycle
       = (Returned (success_flag ex_settings ex_collector ex_cycle), c2')"
    "trace c2' = trace ex_collector @ es2"
    "Log CRITICAL \<in> set es2 \<longleftrightarrow> \<not> success_flag ex_settings ex_collector ex_cycle"
    by blast
  with f2 t0 have b: "Log CRITICAL \<notin>
      set (trace (snd (collect_all_channels ex_settings ex_collector ex_cycle)))"
    by simp
  have i: "invocation_result ex_settings
     (tell ex_collector [GetEntity ''@alpha'', Log INFO, GetEntity ''@beta'', Log INFO])
     [(''@beta'', ex_beta_denied), (''@alpha'', ex_alpha)] 1"
    by code_simp
  have h3: "client_fails ex_cycle_offline" by (simp add: ex_cycle_offline_def)
  note th3 = cycle_success_flag [of ex_cycle_offline ex_collector ex_settings]
  from th3 h3 have c: "run_collection ex_settings ex_collector ex_cycle_offline =
     (Returned (), tell (ex_collector\<lparr>collection_stats := []\<rparr>) [Log ERROR])"
    by blast
  from h1 f1 a h2 f2 b i h3 c show ?thesis by blast
qed

theorem partial_failure_isolation_witness:
  "\<not> client_fails ex_cycle \<and> access_denied ex_beta_denied \<and>
   fst (collect_all_channels ex_settings ex_collector ex_cycle) = Returned True \<and>
   (\<exists>sv er. last (trace (snd (collect_all_channels ex_settings ex_collector ex_cycle)))
              = Summary 1 2 sv er \<and> sv + er = 2)"
proof -
  define cB where "cB = snd (collect_channel_messages ex_settings
     (ex_collector\<lparr>collection_stats := []\<rparr>) ''@alpha'' ex_alpha)"
  have h: "\<not> client_fails ex_cycle" by (simp add: ex_cycle_def)
  have a: "access_denied ex_beta_denied"
    by (simp add: access_denied_def fetch_fails_def ex_beta_denied_def)
  have m: "collect_messages ex_alpha = Inr [ex_message 1, ex_message 2]"
    by (simp add: ex_alpha_def)
  have b: "collect_channel_messages ex_settings (ex_collector\<lparr>collection_stats := []\<rparr>)
             ''@alpha'' ex_alpha = (True, cB)"
    by (simp add: cB_def collector_eval db_eval str_int_7)
  have o: "[(''@alpha'', ex_alpha), (''@beta'', ex_beta_denied)] =
             [(''@beta'', ex_beta_denied), (''@alpha'', ex_alpha)] \<or>
           [(''@alpha'', ex_alpha), (''@beta'', ex_beta_denied)] =
             [(''@alpha'', ex_alpha), (''@beta'', ex_beta_denied)]"
    by simp
  from partial_failure_isolation [OF h ex_cycle_tasks o a m b]
  obtain c' and st :: CollectionStats
    where r: "collect_all_channels ex_settings ex_collector ex_cycle = (Returned True, c')"
    "processed st = int (length [ex_message 1, ex_message 2])"
    "saved st + errors st = processed st"
    "last (trace c') = Summary 1 (processed st) (saved st) (errors st)"
    by blast
  then have "last (trace (snd (collect_all_channels ex_settings ex_collector ex_cycle)))
              = Summary 1 2 (saved st) (errors st) \<and> saved st + errors st = 2"
    by simp
  then have "\<exists>sv er. last (trace (snd (collect_all_channels ex_settings ex_collector ex_cycle)))
              = Summary 1 2 sv er \<and> sv + er = 2"
    by blast
  with h a r(1) show ?thesis by simp
qed

lemma cycle_entries_ok:
  assumes "collect_all_channels s c env = (r, c')"
  shows "list_all (\<lambda>(channel, st). stats_ok st) (collection_stats c')"
proof (cases "client_fails env")
  case True
  with assms have "c' = c\<lparr>collection_stats := []\<rparr>"
    by (simp add: collect_all_channels_def)
  then show ?thesis by simp
next
  case False
  obtain tasks c1 where v: "validated_tasks (c\<lparr>collection_stats := []\<rparr>) (configured s env) = (tasks, c1)"
    by (cases "validated_tasks (c\<lparr>collection_stats := []\<rparr>) (configured s env)")
  obtain results c2 where g: "gather s (picks env) c1 tasks = (results, c2)"
    by (cases "gather s (picks env) c1 tasks")
  from cycle_stats [OF False v g] assms have cs: "collection_stats c' = collection_stats c2"
    by auto
  from validated_tasks_effect [OF v] have e: "collection_stats c1 = []" by simp
  from gather_effect [OF g] e
  have dist: "distinct (map fst (collection_stats c2))"
    and ok: "\<forall>k st. map_of (collection_stats c2) k = Some st \<longrightarrow> stats_ok st"
    by simp_all
  have "stats_ok st" if "(k, st) \<in> set (collection_stats c2)" for k st
    using that dist ok by simp
  then show ?thesis
    unfolding cs by (auto simp: list_all_iff)
qed

text \<open>
  C4. When the fetch of a channel returns a list of messages, the invocation of
  \<^verbatim>\<open>collect_channel_messages\<close> leaves an entry for the channel with \<open>processed\<close>
  equal to the number of fetched messages and \<open>saved + errors \<le> processed\<close>, both
  counts non-negative. When the invocation returns True, every fetched message
  is counted once, under \<open>saved\<close> or under \<open>errors\<close>. When the driver raises at no
  save, the schema is in place and the pool has a connection left, every fetched
  message is counted under \<open>saved\<close>, whether its row was stored before or not.
  At the end of every cycle, every entry of the statistics has non-negative
  counts with \<open>saved + errors \<le> processed\<close>.
\<close>

theorem collect_channel_counts:
  assumes "collect_entity e = Inr entity_id" and "collect_messages e = Inr messages"
    and "collect_channel_messages s c channel e = (r, c')"
  shows "(\<exists>st. map_of (collection_stats c') channel = Some st \<and>
           processed st = int (length messages) \<and> stats_ok st \<and>
           (r \<longrightarrow> saved st + errors st = processed st) \<and>
           (list_all driver_ok (save_faults e) \<and> schema_ready (db c) \<and> in_use (db c) < maxconn
              \<longrightarrow> r \<and> saved st = processed st \<and> errors st = 0)) \<and>
         (\<forall>env r' c''. collect_all_channels s c env = (r', c'') \<longrightarrow>
            list_all (\<lambda>(channel, st). stats_ok st) (collection_stats c''))"
  using collect_fetched_stats [OF assms] cycle_entries_ok by blast

theorem collect_channel_counts_witness:
  "fst (collect_channel_messages ex_settings ex_collected ''@alpha'' ex_alpha) \<and>
   map_of (collection_stats
     (snd (collect_channel_messages ex_settings ex_collected ''@alpha'' ex_alpha))) ''@alpha''
     = Some \<lparr>processed = 2, saved = 2, errors = 0\<rparr> \<and>
   length (posts (server (db
     (snd (collect_channel_messages ex_settings ex_collected ''@alpha'' ex_alpha))))) = 2"
proof -
  define out where "out = collect_channel_messages ex_settings ex_collected ''@alpha'' ex_alpha"
  have run: "collect_channel_messages ex_settings ex_collected ''@alpha'' ex_alpha = (fst out, snd out)"
    by (simp add: out_def)
  have e: "collect_entity ex_alpha = Inr 7"
    and m: "collect_messages ex_alpha = Inr [ex_message 1, ex_message 2]"
    by (simp_all add: ex_alpha_def)
  have h: "list_all driver_ok (save_faults ex_alpha) \<and> schema_ready (db ex_collected) \<and>
           in_use (db ex_collected) < maxconn"
    using ex_collected_eval by (simp add: ex_alpha_def maxconn_def)
  from conjunct1 [OF collect_channel_counts [OF e m run]] h
  obtain st where st: "map_of (collection_stats (snd out)) ''@alpha'' = Some st"
    "processed st = 2" "fst out" "saved st = processed st" "errors st = 0"
    by auto
  then have "st = \<lparr>processed = 2, saved = 2, errors = 0\<rparr>" by simp
  moreover have "length (posts (server (db (snd out)))) = 2"
    by (simp add: out_def ex_collected_def collector_eval db_eval str_int_7)
  ultimately show ?thesis using st unfolding out_def by simp
qed

section \<open>Properties of schema initialization\<close>




lemma create_database_server: "server (snd (create_database s d fc)) = server d"
  by (simp add: create_database_def)

lemma create_database_needs_database:
  assumes "DB_NAME s \<notin> set (databases (server d))"
  shows "create_database s d fc = (Raised, emit d [Connect, Log ERROR])"
  using assms by (simp add: create_database_def)

lemma init_db_needs_database:
  assumes "DB_NAME s \<notin> set (databases (server d))"
  shows "fst (init_db s d fc f) = Raised \<and> server (snd (init_db s d fc f)) = server d"
  using assms by (simp add: init_db_def create_database_needs_database)



lemma names_distinct:
  "telegram_posts \<noteq> telegram_posts_channel_message_idx"
  "telegram_posts \<noteq> telegram_posts_published_at_idx"
  "telegram_posts_channel_message_idx \<noteq> telegram_posts_published_at_idx"
  by (simp_all add: telegram_posts_def telegram_posts_channel_message_idx_def
      telegram_posts_published_at_idx_def)



section \<open>Properties of the configuration\<close>

text \<open>
  C7, as amended. A URL supplied in the configuration is kept as
  \<^verbatim>\<open>DATABASE_URL\<close> by \<^verbatim>\<open>assemble_db_url\<close>, which changes nothing then; when none is
  supplied, one is built from the individual settings. The \<^verbatim>\<open>Database\<close> object
  does not read \<^verbatim>\<open>DATABASE_URL\<close>: it is the same object whatever the URL is, and
  the connections of its pool are opened with \<^verbatim>\<open>DB_HOST\<close>, \<^verbatim>\<open>DB_PORT\<close>, \<^verbatim>\<open>DB_USER\<close>,
  \<^verbatim>\<open>DB_PASSWORD\<close> and \<^verbatim>\<open>DB_NAME\<close>, whether or not a URL is supplied.
\<close>

theorem connection_ignores_url:
  "Database_init (s\<lparr>DATABASE_URL := url\<rparr>) srv = Database_init s srv \<and>
   (\<forall>u. DATABASE_URL s = Some u \<longrightarrow> assemble_db_url s = s) \<and>
   (DATABASE_URL s = None \<longrightarrow>
      (\<exists>u. DATABASE_URL (assemble_db_url s) = Some u \<and>
           host u = DB_HOST s \<and> port u = DB_PORT s \<and> username u = DB_USER s \<and>
           password u = DB_PASSWORD s \<and> path u = DB_NAME s)) \<and>
   (\<forall>d1. get_connection (assemble_db_url s) (Database_init (assemble_db_url s) srv) f
            = Returned d1 \<longrightarrow>
      pool d1 = Some (\<lparr>ca_host = DB_HOST s, ca_port = DB_PORT s, ca_user = DB_USER s,
                       ca_password = DB_PASSWORD s, ca_database = DB_NAME s\<rparr>, 1))"
proof -
  have a: "Database_init (s\<lparr>DATABASE_URL := url\<rparr>) srv = Database_init s srv"
    by (simp add: Database_init_def)
  have b: "\<forall>u. DATABASE_URL s = Some u \<longrightarrow> assemble_db_url s = s"
    by (simp add: assemble_db_url_def)
  have c: "DATABASE_URL s = None \<longrightarrow>
      (\<exists>u. DATABASE_URL (assemble_db_url s) = Some u \<and>
           host u = DB_HOST s \<and> port u = DB_PORT s \<and> username u = DB_USER s \<and>
           password u = DB_PASSWORD s \<and> path u = DB_NAME s)"
    by (simp add: assemble_db_url_def)
  have fields: "DB_HOST (assemble_db_url s) = DB_HOST s" "DB_PORT (assemble_db_url s) = DB_PORT s"
    "DB_USER (assemble_db_url s) = DB_USER s" "DB_PASSWORD (assemble_db_url s) = DB_PASSWORD s"
    "DB_NAME (assemble_db_url s) = DB_NAME s"
    by (simp_all add: assemble_db_url_def split: option.splits)
  have d: "\<forall>d1. get_connection (assemble_db_url s) (Database_init (assemble_db_url s) srv) f
            = Returned d1 \<longrightarrow>
      pool d1 = Some (\<lparr>ca_host = DB_HOST s, ca_port = DB_PORT s, ca_user = DB_USER s,
                       ca_password = DB_PASSWORD s, ca_database = DB_NAME s\<rparr>, 1)"
    by (auto simp: get_connection_def init_pool_def Database_init_def with_database_def
        emit_def fields split: if_splits)
  from a b c d show ?thesis by blast
qed


text \<open>
  C7 as stated fails: the environment \<open>ex_environ\<close> supplies the URL \<open>ex_url\<close>
  (host \<open>db.internal\<close>) and no individual database setting; the settings keep
  the URL, and the pool connects to \<open>localhost\<close> with the default credentials.
\<close>

theorem connection_uses_url_counterexample:
  "Settings_init ex_environ = Inr ex_url_settings \<and>
   DATABASE_URL ex_url_settings = Some ex_url \<and>
   pool_args (get_connection ex_url_settings
                (Database_init ex_url_settings ex_ready_server) no_fault) =
     Some \<lparr>ca_host = ''localhost'', ca_port = 5432, ca_user = ''postgres'',
            ca_password = ''postgres'', ca_database = ''telegram_collector''\<rparr> \<and>
   \<not> connects_to
       \<lparr>ca_host = ''localhost'', ca_port = 5432, ca_user = ''postgres'',
         ca_password = ''postgres'', ca_database = ''telegram_collector''\<rparr> ex_url"
  by code_simp

theorem connection_ignores_url_witness:
  "DATABASE_URL ex_url_settings = Some ex_url \<and>
   assemble_db_url ex_url_settings = ex_url_settings \<and>
   pool_args (get_connection ex_url_settings
                (Database_init ex_url_settings ex_ready_server) no_fault) =
     Some \<lparr>ca_host = DB_HOST ex_url_settings, ca_port = DB_PORT ex_url_settings,
            ca_user = DB_USER ex_url_settings, ca_password = DB_PASSWORD ex_url_settings,
            ca_database = DB_NAME ex_url_settings\<rparr>"
proof -
  have u: "DATABASE_URL ex_url_settings = Some ex_url"
    by (simp add: ex_url_settings_def)
  note th = connection_ignores_url [where s = ex_url_settings and url = None
      and srv = ex_ready_server and f = no_fault]
  from th u have a: "assemble_db_url ex_url_settings = ex_url_settings" by blast
  obtain d1 where g: "get_connection ex_url_settings
                (Database_init ex_url_settings ex_ready_server) no_fault = Returned d1"
    by (simp add: db_eval)
  from th a g have "pool d1 = Some (\<lparr>ca_host = DB_HOST ex_url_settings,
      ca_port = DB_PORT ex_url_settings, ca_user = DB_USER ex_url_settings,
      ca_password = DB_PASSWORD ex_url_settings, ca_database = DB_NAME ex_url_settings\<rparr>, 1)"
    by simp
  with g u a show ?thesis by (simp add: pool_args_def)
qed













end
